theory Spec2Isabelle
  imports Complex_Main
begin

section \<open>Numbers: double-precision values with exact finite arithmetic\<close>

text \<open>
  The simulation computes on Python numbers and numpy float64 arrays. A finite value is
  modelled by the real number it stands for (rounding of double-precision operations is
  not modelled: finite arithmetic is exact); the three special values that numpy
  arithmetic produces instead of raising (division by zero, \<open>inf - inf\<close>, \<open>0 * inf\<close>)
  are values of the type. Zero is unsigned. Masses and \<open>G\<close> are Python numbers, as in
  the calls the source makes.
\<close>

datatype float64 = Fin real | PInf | NInf | NaN

instantiation float64 :: "{zero, one, plus, uminus, minus, times, inverse}"
begin

definition zero_float64 :: float64 where
  "zero_float64 = Fin 0"

definition one_float64 :: float64 where
  "one_float64 = Fin 1"

fun plus_float64 :: "float64 \<Rightarrow> float64 \<Rightarrow> float64" where
  "plus_float64 (Fin a) (Fin b) = Fin (a + b)"
| "plus_float64 NaN _ = NaN"
| "plus_float64 _ NaN = NaN"
| "plus_float64 PInf NInf = NaN"
| "plus_float64 NInf PInf = NaN"
| "plus_float64 PInf _ = PInf"
| "plus_float64 _ PInf = PInf"
| "plus_float64 NInf _ = NInf"
| "plus_float64 _ NInf = NInf"

fun uminus_float64 :: "float64 \<Rightarrow> float64" where
  "uminus_float64 (Fin a) = Fin (- a)"
| "uminus_float64 PInf = NInf"
| "uminus_float64 NInf = PInf"
| "uminus_float64 NaN = NaN"

definition minus_float64 :: "float64 \<Rightarrow> float64 \<Rightarrow> float64" where
  "minus_float64 a b = a + (- b)"

text \<open>The infinity with the sign of a nonzero real, NaN at zero.\<close>

definition signed_inf :: "real \<Rightarrow> float64" where
  "signed_inf a = (if a = 0 then NaN else if 0 < a then PInf else NInf)"

fun times_float64 :: "float64 \<Rightarrow> float64 \<Rightarrow> float64" where
  "times_float64 (Fin a) (Fin b) = Fin (a * b)"
| "times_float64 NaN _ = NaN"
| "times_float64 _ NaN = NaN"
| "times_float64 (Fin a) PInf = signed_inf a"
| "times_float64 (Fin a) NInf = signed_inf (- a)"
| "times_float64 PInf (Fin b) = signed_inf b"
| "times_float64 NInf (Fin b) = signed_inf (- b)"
| "times_float64 PInf PInf = PInf"
| "times_float64 NInf NInf = PInf"
| "times_float64 PInf NInf = NInf"
| "times_float64 NInf PInf = NInf"

text \<open>
  numpy division: a zero divisor gives NaN (\<open>0/0\<close>) or a signed infinity, with a
  warning and no exception.
\<close>

fun divide_float64 :: "float64 \<Rightarrow> float64 \<Rightarrow> float64" where
  "divide_float64 (Fin a) (Fin b) = (if b = 0 then signed_inf a else Fin (a / b))"
| "divide_float64 NaN _ = NaN"
| "divide_float64 _ NaN = NaN"
| "divide_float64 (Fin a) PInf = Fin 0"
| "divide_float64 (Fin a) NInf = Fin 0"
| "divide_float64 PInf (Fin b) = (if 0 \<le> b then PInf else NInf)"
| "divide_float64 NInf (Fin b) = (if 0 \<le> b then NInf else PInf)"
| "divide_float64 PInf PInf = NaN"
| "divide_float64 PInf NInf = NaN"
| "divide_float64 NInf PInf = NaN"
| "divide_float64 NInf NInf = NaN"

definition inverse_float64 :: "float64 \<Rightarrow> float64" where
  "inverse_float64 a = divide (Fin 1) a"

instance ..

end

lemma float64_add_commute: "(a::float64) + b = b + a"
  by (cases a; cases b) simp_all

lemma float64_add_assoc: "((a::float64) + b) + c = a + (b + c)"
  by (cases a; cases b; cases c) simp_all

lemma float64_zero_add: "Fin 0 + (a::float64) = a"
  by (cases a) simp_all

instance float64 :: comm_monoid_add
proof
  fix a b c :: float64
  show "a + b + c = a + (b + c)" by (rule float64_add_assoc)
  show "a + b = b + a" by (rule float64_add_commute)
  show "0 + a = a" by (simp add: zero_float64_def float64_zero_add)
qed

lemma float64_mult_commute: "(a::float64) * b = b * a"
  by (cases a; cases b) (simp_all add: mult.commute)

lemma float64_mult_assoc: "((a::float64) * b) * c = a * (b * c)"
  by (cases a; cases b; cases c)
     (auto simp: signed_inf_def zero_less_mult_iff mult_less_0_iff not_less mult.assoc)

lemma float64_one_mult: "Fin 1 * (a::float64) = a"
  by (cases a) (simp_all add: signed_inf_def)

instance float64 :: comm_monoid_mult
proof
  fix a b c :: float64
  show "a * b * c = a * (b * c)" by (rule float64_mult_assoc)
  show "a * b = b * a" by (rule float64_mult_commute)
  show "1 * a = a" by (simp add: one_float64_def float64_one_mult)
qed

text \<open>\<open>np.sqrt\<close> on the special values; a negative argument gives NaN.\<close>

fun fsqrt :: "float64 \<Rightarrow> float64" where
  "fsqrt (Fin a) = (if a < 0 then NaN else Fin (sqrt a))"
| "fsqrt PInf = PInf"
| "fsqrt NInf = NaN"
| "fsqrt NaN = NaN"

fun is_fin :: "float64 \<Rightarrow> bool" where
  "is_fin (Fin a) = True"
| "is_fin PInf = False"
| "is_fin NInf = False"
| "is_fin NaN = False"

fun rval :: "float64 \<Rightarrow> real" where
  "rval (Fin a) = a"
| "rval PInf = 0"
| "rval NInf = 0"
| "rval NaN = 0"

section \<open>Vectors and body states\<close>

text \<open>
  A position or a velocity is a numpy array of three components; arithmetic on arrays
  is componentwise, a scalar operand is broadcast.
\<close>

datatype vec3 = Vec3 float64 float64 float64

instantiation vec3 :: "{zero, plus, uminus, minus}"
begin

definition zero_vec3 :: vec3 where
  "zero_vec3 = Vec3 (Fin 0) (Fin 0) (Fin 0)"

fun plus_vec3 :: "vec3 \<Rightarrow> vec3 \<Rightarrow> vec3" where
  "plus_vec3 (Vec3 a b c) (Vec3 x y z) = Vec3 (a + x) (b + y) (c + z)"

fun uminus_vec3 :: "vec3 \<Rightarrow> vec3" where
  "uminus_vec3 (Vec3 a b c) = Vec3 (- a) (- b) (- c)"

fun minus_vec3 :: "vec3 \<Rightarrow> vec3 \<Rightarrow> vec3" where
  "minus_vec3 (Vec3 a b c) (Vec3 x y z) = Vec3 (a - x) (b - y) (c - z)"

instance ..

end

instance vec3 :: comm_monoid_add
proof
  fix a b c :: vec3
  show "a + b + c = a + (b + c)"
    by (cases a; cases b; cases c) (simp add: add.assoc)
  show "a + b = b + a"
    by (cases a; cases b) (simp add: add.commute)
  show "0 + a = a"
    by (cases a) (simp add: zero_vec3_def float64_zero_add)
qed

text \<open>\<open>c * v\<close> (scalar times array), \<open>v * c\<close> (array times scalar), \<open>v / c\<close>.\<close>

fun smul :: "float64 \<Rightarrow> vec3 \<Rightarrow> vec3" where
  "smul c (Vec3 x y z) = Vec3 (c * x) (c * y) (c * z)"

fun vmul :: "vec3 \<Rightarrow> float64 \<Rightarrow> vec3" where
  "vmul (Vec3 x y z) c = Vec3 (x * c) (y * c) (z * c)"

fun vdiv :: "vec3 \<Rightarrow> float64 \<Rightarrow> vec3" where
  "vdiv (Vec3 x y z) c = Vec3 (x / c) (y / c) (z / c)"

text \<open>\<open>np.linalg.norm\<close> of a vector: the square root of its dot product with itself.\<close>

fun norm3 :: "vec3 \<Rightarrow> float64" where
  "norm3 (Vec3 x y z) = fsqrt (x * x + y * y + z * z)"

definition nan3 :: vec3 where
  "nan3 = Vec3 NaN NaN NaN"

fun fin3 :: "vec3 \<Rightarrow> bool" where
  "fin3 (Vec3 x y z) = (is_fin x \<and> is_fin y \<and> is_fin z)"

text \<open>
  A body's state is the 2x3 array \<open>np.array([pos, vel])\<close>: row 0 the position, row 1
  the velocity.
\<close>

type_synonym body = "vec3 \<times> vec3"

definition body_add :: "body \<Rightarrow> body \<Rightarrow> body" where
  "body_add a b = (fst a + fst b, snd a + snd b)"

definition body_mul :: "body \<Rightarrow> float64 \<Rightarrow> body" where
  "body_mul a c = (vmul (fst a) c, vmul (snd a) c)"

section \<open>Python lists and exceptions\<close>

datatype error = IndexError | ZeroDivisionError

text \<open>
  The position a Python list index denotes in a list of the given length: a negative
  index counts from the end; \<open>None\<close> where Python raises IndexError.
\<close>

definition py_index :: "nat \<Rightarrow> int \<Rightarrow> nat option" where
  "py_index len i =
     (if 0 \<le> i \<and> i < int len then Some (nat i)
      else if - int len \<le> i \<and> i < 0 then Some (nat (int len + i))
      else None)"

definition py_get :: "'a list \<Rightarrow> int \<Rightarrow> error + 'a" where
  "py_get xs i = (case py_index (length xs) i of None \<Rightarrow> Inl IndexError | Some k \<Rightarrow> Inr (xs ! k))"

definition py_setitem :: "'a list \<Rightarrow> int \<Rightarrow> 'a \<Rightarrow> error + 'a list" where
  "py_setitem xs i v =
     (case py_index (length xs) i of None \<Rightarrow> Inl IndexError | Some k \<Rightarrow> Inr (xs[k := v]))"

definition remove_at :: "nat \<Rightarrow> 'a list \<Rightarrow> 'a list" where
  "remove_at k xs = take k xs @ drop (Suc k) xs"

definition py_pop :: "'a list \<Rightarrow> int \<Rightarrow> error + 'a list" where
  "py_pop xs i =
     (case py_index (length xs) i of None \<Rightarrow> Inl IndexError | Some k \<Rightarrow> Inr (remove_at k xs))"

section \<open>The simulation state and its mutators\<close>

record Simulation =
  masses :: "float64 list"
  bodies :: "body list"
  t :: float64
  n :: int
  running :: bool

text \<open>
  A method that assigns to the object returns its outcome together with the state it
  leaves behind; a raised exception leaves the assignments made before it. The state
  is that of one simulation on its own: two simulations that were given the same list
  objects are not modelled.

  The constructor takes the two lists (by default, empty ones) as they are.
\<close>

definition init :: "float64 list \<Rightarrow> body list \<Rightarrow> Simulation" where
  "init ms bs = \<lparr>masses = ms, bodies = bs, t = Fin 0, n = int (length ms), running = True\<rparr>"

definition add_body :: "float64 \<Rightarrow> vec3 \<Rightarrow> vec3 \<Rightarrow> Simulation \<Rightarrow> (error + unit) \<times> Simulation" where
  "add_body mass pos vel s =
     (let body = (pos, vel)
      in (Inr (), s\<lparr>masses := masses s @ [mass], bodies := bodies s @ [body], n := n s + 1\<rparr>))"

definition set_body :: "int \<Rightarrow> float64 \<Rightarrow> vec3 \<Rightarrow> vec3 \<Rightarrow> Simulation \<Rightarrow> (error + unit) \<times> Simulation" where
  "set_body index mass pos vel s =
     (let body = (pos, vel)
      in case py_setitem (masses s) index mass of
           Inl e \<Rightarrow> (Inl e, s)
         | Inr ms \<Rightarrow>
             (case py_setitem (bodies s) index body of
                Inl e \<Rightarrow> (Inl e, s\<lparr>masses := ms\<rparr>)
              | Inr bs \<Rightarrow> (Inr (), s\<lparr>masses := ms, bodies := bs\<rparr>)))"

definition remove_body :: "int \<Rightarrow> Simulation \<Rightarrow> (error + unit) \<times> Simulation" where
  "remove_body index s =
     (case py_pop (masses s) index of
        Inl e \<Rightarrow> (Inl e, s)
      | Inr ms \<Rightarrow>
          (case py_pop (bodies s) index of
             Inl e \<Rightarrow> (Inl e, s\<lparr>masses := ms\<rparr>)
           | Inr bs \<Rightarrow> (Inr (), s\<lparr>masses := ms, bodies := bs, n := n s - 1\<rparr>)))"

text \<open>The lock-step invariant of the data model, with the cached count.\<close>

definition lock_step :: "Simulation \<Rightarrow> bool" where
  "lock_step s = (length (masses s) = length (bodies s) \<and> n s = int (length (bodies s)))"

section \<open>The acceleration evaluator and the right-hand side of the ODE\<close>

text \<open>
  The gravitational constant is a module-level variable that the driver reassigns
  between steps; every function that reads it takes it as the parameter \<open>G\<close>.

  \<open>dv_dt\<close> and \<open>ode\<close> assign to nothing but locals, so they are functions of
  the state. The loop of \<open>dv_dt\<close> runs \<open>j\<close> over \<open>range(self.n)\<close> and reads the
  position of body \<open>i\<close> from \<open>self.bodies[i][0]\<close>.
\<close>

fun dv_dt_loop :: "float64 \<Rightarrow> Simulation \<Rightarrow> int \<Rightarrow> nat list \<Rightarrow> vec3 \<Rightarrow> error + vec3" where
  "dv_dt_loop G s i [] F = Inr F"
| "dv_dt_loop G s i (j # js) F =
     (if i = int j then dv_dt_loop G s i js F
      else case py_get (bodies s) (int j) of
             Inl e \<Rightarrow> Inl e
           | Inr bj \<Rightarrow>
               (case py_get (bodies s) i of
                  Inl e \<Rightarrow> Inl e
                | Inr bi \<Rightarrow>
                    (let offset = fst bj - fst bi
                     in case py_get (masses s) (int j) of
                          Inl e \<Rightarrow> Inl e
                        | Inr mj \<Rightarrow>
                            dv_dt_loop G s i js
                              (F + vdiv (smul (G * mj) offset) (norm3 offset ^ 3)))))"

text \<open>The argument \<open>body\<close> defaults to \<open>None\<close>, which stands for \<open>self.bodies[i]\<close>.\<close>

definition default_body :: "Simulation \<Rightarrow> int \<Rightarrow> body option \<Rightarrow> error + body" where
  "default_body s i body = (case body of None \<Rightarrow> py_get (bodies s) i | Some b \<Rightarrow> Inr b)"

definition dv_dt :: "float64 \<Rightarrow> int \<Rightarrow> body option \<Rightarrow> Simulation \<Rightarrow> error + vec3" where
  "dv_dt G i body s =
     (case default_body s i body of
        Inl e \<Rightarrow> Inl e
      | Inr b \<Rightarrow> dv_dt_loop G s i [0..<nat (n s)] 0)"

definition ode :: "float64 \<Rightarrow> int \<Rightarrow> body option \<Rightarrow> Simulation \<Rightarrow> error + body" where
  "ode G i body s =
     (case default_body s i body of
        Inl e \<Rightarrow> Inl e
      | Inr b \<Rightarrow>
          (case dv_dt G i (Some b) s of
             Inl e \<Rightarrow> Inl e
           | Inr a \<Rightarrow> Inr (snd b, a)))"

section \<open>The integrators\<close>

text \<open>
  Both steps fill a fresh list \<open>new\<close> of \<open>self.n\<close> slots, initially \<open>None\<close>, and
  assign \<open>self.bodies\<close> and \<open>self.t\<close> after the loop; an exception raised in the loop
  leaves the object as it was.
\<close>

fun euler_loop ::
  "float64 \<Rightarrow> float64 \<Rightarrow> Simulation \<Rightarrow> nat list \<Rightarrow> body option list \<Rightarrow> error + body option list" where
  "euler_loop G dt s [] new = Inr new"
| "euler_loop G dt s (i # is) new =
     (case py_get (bodies s) (int i) of
        Inl e \<Rightarrow> Inl e
      | Inr b \<Rightarrow>
          (case ode G (int i) None s of
             Inl e \<Rightarrow> Inl e
           | Inr d \<Rightarrow> euler_loop G dt s is (new[i := Some (body_add b (body_mul d dt))])))"

definition step_euler :: "float64 \<Rightarrow> float64 \<Rightarrow> Simulation \<Rightarrow> (error + unit) \<times> Simulation" where
  "step_euler G dt s =
     (case euler_loop G dt s [0..<nat (n s)] (replicate (nat (n s)) None) of
        Inl e \<Rightarrow> (Inl e, s)
      | Inr new \<Rightarrow> (Inr (), s\<lparr>bodies := map the new, t := t s + dt\<rparr>))"

text \<open>
  \<open>astype(np.single)\<close> is numpy's cast of every component to IEEE 754 binary32:
  a significand of 24 bits, every value a multiple of \<open>2^-149\<close> (subnormal numbers
  included), rounding to the nearest value with ties to the even significand, and an
  infinity for a magnitude of \<open>2^128 - 2^103\<close> or more. The magnitude is rounded in
  units of \<open>2^-149\<close>: \<open>single_shift\<close> is the number of low bits that do not fit the
  significand. The special values are kept, and \<open>astype(np.double)\<close> widens without
  changing the value.
\<close>

fun bit_length :: "nat \<Rightarrow> nat" where
  "bit_length k = (if k = 0 then 0 else Suc (bit_length (k div 2)))"

declare bit_length.simps [simp del]

definition round_half_even :: "real \<Rightarrow> nat" where
  "round_half_even q =
     (let f = nat \<lfloor>q\<rfloor>; d = q - real f
      in if d < 1/2 then f else if 1/2 < d then Suc f else if even f then f else Suc f)"

definition single_shift :: "real \<Rightarrow> nat" where
  "single_shift x = bit_length (nat \<lfloor>x\<rfloor>) - 24"

definition single_units :: "real \<Rightarrow> nat" where
  "single_units x = (let j = single_shift x in round_half_even (x / 2 ^ j) * 2 ^ j)"

definition single_overflow :: real where
  "single_overflow = 2 ^ 128 - 2 ^ 103"

definition round_single :: "real \<Rightarrow> float64" where
  "round_single r =
     (if single_overflow \<le> r then PInf
      else if r \<le> - single_overflow then NInf
      else if 0 \<le> r then Fin (real (single_units (r * 2 ^ 149)) / 2 ^ 149)
      else Fin (- (real (single_units (- r * 2 ^ 149)) / 2 ^ 149)))"

fun single_of :: "float64 \<Rightarrow> float64" where
  "single_of (Fin a) = round_single a"
| "single_of PInf = PInf"
| "single_of NInf = NInf"
| "single_of NaN = NaN"

fun vec_single :: "vec3 \<Rightarrow> vec3" where
  "vec_single (Vec3 x y z) = Vec3 (single_of x) (single_of y) (single_of z)"

definition astype_single :: "body \<Rightarrow> body" where
  "astype_single b = (vec_single (fst b), vec_single (snd b))"

definition astype_double :: "body \<Rightarrow> body" where
  "astype_double b = b"

text \<open>
  \<open>r1, v1 = y0\<close> unpacks the two rows of \<open>y0\<close>; \<open>r1 += ...\<close> adds to the position
  row. \<open>self.ode(i)\<close> is evaluated a second time for the correction.
\<close>

fun sieuler_loop ::
  "float64 \<Rightarrow> float64 \<Rightarrow> Simulation \<Rightarrow> nat list \<Rightarrow> body option list \<Rightarrow> error + body option list" where
  "sieuler_loop G dt s [] new = Inr new"
| "sieuler_loop G dt s (i # is) new =
     (case py_get (bodies s) (int i) of
        Inl e \<Rightarrow> Inl e
      | Inr b \<Rightarrow>
          (case ode G (int i) None s of
             Inl e \<Rightarrow> Inl e
           | Inr d \<Rightarrow>
               (let y0 = body_add b (body_mul d dt); r1 = fst y0; v1 = snd y0
                in case ode G (int i) None s of
                     Inl e \<Rightarrow> Inl e
                   | Inr d' \<Rightarrow>
                       (let r1' = r1 + vmul (vmul (snd d') dt) dt
                        in sieuler_loop G dt s is
                             (new[i := Some (astype_double (astype_single (r1', v1)))])))))"

definition step_sieuler :: "float64 \<Rightarrow> float64 \<Rightarrow> Simulation \<Rightarrow> (error + unit) \<times> Simulation" where
  "step_sieuler G dt s =
     (case sieuler_loop G dt s [0..<nat (n s)] (replicate (nat (n s)) None) of
        Inl e \<Rightarrow> (Inl e, s)
      | Inr new \<Rightarrow> (Inr (), s\<lparr>bodies := map the new, t := t s + dt\<rparr>))"

section \<open>Diagnostics\<close>

fun energy_inner :: "float64 \<Rightarrow> Simulation \<Rightarrow> nat \<Rightarrow> nat list \<Rightarrow> float64 \<Rightarrow> error + float64" where
  "energy_inner G s i [] e = Inr e"
| "energy_inner G s i (j # js) e =
     (case py_get (masses s) (int i) of
        Inl x \<Rightarrow> Inl x
      | Inr mi \<Rightarrow>
          (case py_get (masses s) (int j) of
             Inl x \<Rightarrow> Inl x
           | Inr mj \<Rightarrow>
               (case py_get (bodies s) (int j) of
                  Inl x \<Rightarrow> Inl x
                | Inr bj \<Rightarrow>
                    (case py_get (bodies s) (int i) of
                       Inl x \<Rightarrow> Inl x
                     | Inr bi \<Rightarrow>
                         energy_inner G s i js (e - G * mi * mj / norm3 (fst bj - fst bi))))))"

fun energy_outer :: "float64 \<Rightarrow> Simulation \<Rightarrow> nat \<Rightarrow> nat list \<Rightarrow> float64 \<Rightarrow> error + float64" where
  "energy_outer G s amt [] e = Inr e"
| "energy_outer G s amt (i # is) e =
     (case py_get (masses s) (int i) of
        Inl x \<Rightarrow> Inl x
      | Inr mi \<Rightarrow>
          (case py_get (bodies s) (int i) of
             Inl x \<Rightarrow> Inl x
           | Inr bi \<Rightarrow>
               (case energy_inner G s i [Suc i..<amt] (e + mi * norm3 (snd bi) ^ 2 / Fin 2) of
                  Inl x \<Rightarrow> Inl x
                | Inr e' \<Rightarrow> energy_outer G s amt is e')))"

definition energy :: "float64 \<Rightarrow> Simulation \<Rightarrow> (error + float64) \<times> Simulation" where
  "energy G s = (let amt = nat (n s) in (energy_outer G s amt [0..<amt] (Fin 0), s))"







section \<open>Example states\<close>

definition body_a :: body where
  "body_a = (Vec3 (Fin 1) (Fin 0) (Fin 0), Vec3 (Fin 0) (Fin 1) (Fin 0))"


definition replaced :: Simulation where
  "replaced = init [Fin 2] [(0, 0)]"

definition emptied :: Simulation where
  "emptied = init [] []"

definition two_body :: Simulation where
  "two_body = init [Fin 1, Fin 1]
     [(Vec3 (Fin 0) (Fin 0) (Fin 0), Vec3 (Fin 0) (Fin 0) (Fin 0)),
      (Vec3 (Fin 1) (Fin 0) (Fin 0), Vec3 (Fin 0) (Fin 1) (Fin 0))]"

definition candidate :: body where
  "candidate = (Vec3 (Fin 3) (Fin 0) (Fin 0), Vec3 (Fin 0) (Fin 0) (Fin 0))"


definition coincident :: Simulation where
  "coincident = init [Fin 1, Fin 1] [body_a, body_a]"

section \<open>Closed forms\<close>

text \<open>
  The formulas the loops are compared with. \<open>pull G s p j\<close> is the term that body \<open>j\<close>
  adds to the acceleration of a body at position \<open>p\<close>, and \<open>accel_sum G s i\<close> the sum
  of these terms over \<open>j \<noteq> i\<close> in ascending order, at the stored position of body \<open>i\<close>.
\<close>

definition pull :: "float64 \<Rightarrow> Simulation \<Rightarrow> vec3 \<Rightarrow> nat \<Rightarrow> vec3" where
  "pull G s p j =
     (let offset = fst (bodies s ! j) - p
      in vdiv (smul (G * masses s ! j) offset) (norm3 offset ^ 3))"

definition accel_sum :: "float64 \<Rightarrow> Simulation \<Rightarrow> nat \<Rightarrow> vec3" where
  "accel_sum G s i =
     sum_list (map (pull G s (fst (bodies s ! i))) (filter (\<lambda>j. j \<noteq> i) [0..<length (bodies s)]))"

text \<open>
  The acceleration as the specification words it, for body \<open>i\<close> placed at a candidate
  position \<open>p\<close>: \<open>G * \<Sum>\<^bsub>j \<noteq> i\<^esub> m\<^sub>j * (p\<^sub>j - p) / |p\<^sub>j - p|\<^sup>3\<close>.
\<close>

definition accel_spec :: "float64 \<Rightarrow> Simulation \<Rightarrow> nat \<Rightarrow> vec3 \<Rightarrow> vec3" where
  "accel_spec G s i p =
     smul G (sum_list (map (\<lambda>j. vdiv (smul (masses s ! j) (fst (bodies s ! j) - p))
                                    (norm3 (fst (bodies s ! j) - p) ^ 3))
                           (filter (\<lambda>j. j \<noteq> i) [0..<length (bodies s)])))"

text \<open>Forward Euler: \<open>state\<^sub>i + dt * (velocity\<^sub>i, acceleration\<^sub>i)\<close>.\<close>

definition euler_formula :: "float64 \<Rightarrow> float64 \<Rightarrow> Simulation \<Rightarrow> nat \<Rightarrow> body" where
  "euler_formula G dt s i =
     (let pos = fst (bodies s ! i); vel = snd (bodies s ! i)
      in (pos + smul dt vel, vel + smul dt (accel_sum G s i)))"

text \<open>
  Single precision as the specification words it. A real number is a single-precision
  value when its magnitude is \<open>m * 2^k\<close> units of \<open>2^-149\<close> with a significand \<open>m\<close>
  below \<open>2^24\<close> and \<open>k \<le> 253\<close>; its significand is even when \<open>m\<close> is even in the
  normalised form. \<open>single_cast x y\<close> says that \<open>y\<close> is the cast of \<open>x\<close>: a special
  value is kept; a finite value below the overflow threshold goes to a single-precision
  value that no other one is nearer to, the one with the even significand where two
  are equally near; from the threshold on it goes to the infinity of its sign.
\<close>

definition is_single :: "real \<Rightarrow> bool" where
  "is_single y = (\<exists>m k. m < (2::nat) ^ 24 \<and> k \<le> (253::nat) \<and> \<bar>y\<bar> * 2 ^ 149 = real (m * 2 ^ k))"

definition even_single :: "real \<Rightarrow> bool" where
  "even_single y =
     (\<exists>m k. m < (2::nat) ^ 24 \<and> k \<le> (253::nat) \<and> even m \<and> (k = 0 \<or> 2 ^ 23 \<le> m)
            \<and> \<bar>y\<bar> * 2 ^ 149 = real (m * 2 ^ k))"

definition single_cast :: "float64 \<Rightarrow> float64 \<Rightarrow> bool" where
  "single_cast x y =
     (case x of
        Fin r \<Rightarrow>
          (if single_overflow \<le> r then y = PInf
           else if r \<le> - single_overflow then y = NInf
           else (\<exists>q. y = Fin q \<and> is_single q
                  \<and> (\<forall>z. is_single z \<longrightarrow> \<bar>q - r\<bar> \<le> \<bar>z - r\<bar>)
                  \<and> (\<forall>z. is_single z \<and> z \<noteq> q \<and> \<bar>z - r\<bar> = \<bar>q - r\<bar> \<longrightarrow> even_single q)))
      | PInf \<Rightarrow> y = PInf
      | NInf \<Rightarrow> y = NInf
      | NaN \<Rightarrow> y = NaN)"

fun vec_cast :: "vec3 \<Rightarrow> vec3 \<Rightarrow> bool" where
  "vec_cast (Vec3 a b c) (Vec3 x y z) = (single_cast a x \<and> single_cast b y \<and> single_cast c z)"

definition body_cast :: "body \<Rightarrow> body \<Rightarrow> bool" where
  "body_cast b c = (vec_cast (fst b) (fst c) \<and> vec_cast (snd b) (snd c))"

text \<open>
  Semi-implicit Euler before the cast: the provisional forward Euler update
  \<open>pos' = pos + dt * vel\<close>, \<open>vel' = vel + dt * acc\<close>, and \<open>dt\<^sup>2 * acc\<close> added to the
  position.
\<close>

definition sieuler_exact :: "float64 \<Rightarrow> float64 \<Rightarrow> Simulation \<Rightarrow> nat \<Rightarrow> body" where
  "sieuler_exact G dt s i =
     (let pos = fst (bodies s ! i); vel = snd (bodies s ! i); acc = accel_sum G s i;
          pos' = pos + smul dt vel; vel' = vel + smul dt acc
      in (pos' + smul (dt ^ 2) acc, vel'))"

definition sieuler_formula :: "float64 \<Rightarrow> float64 \<Rightarrow> Simulation \<Rightarrow> nat \<Rightarrow> body" where
  "sieuler_formula G dt s i = astype_double (astype_single (sieuler_exact G dt s i))"

text \<open>
  The energy as the specification words it: the kinetic energy
  \<open>\<Sum> m\<^sub>i |v\<^sub>i|\<^sup>2 / 2\<close> and the potential energy
  \<open>\<Sum>\<^bsub>i < j\<^esub> G m\<^sub>i m\<^sub>j / |p\<^sub>i - p\<^sub>j|\<close>, every unordered pair once.
\<close>

definition kinetic :: "Simulation \<Rightarrow> float64" where
  "kinetic s =
     sum_list (map (\<lambda>i. masses s ! i * norm3 (snd (bodies s ! i)) ^ 2 / Fin 2)
                   [0..<length (bodies s)])"

definition pair_potential :: "float64 \<Rightarrow> Simulation \<Rightarrow> nat \<Rightarrow> nat \<Rightarrow> float64" where
  "pair_potential G s i j =
     G * masses s ! i * masses s ! j / norm3 (fst (bodies s ! i) - fst (bodies s ! j))"

definition potential :: "float64 \<Rightarrow> Simulation \<Rightarrow> float64" where
  "potential G s =
     sum_list (map (\<lambda>i. sum_list (map (pair_potential G s i) [Suc i..<length (bodies s)]))
                   [0..<length (bodies s)])"



text \<open>A value that is NaN or zero: what a difference \<open>a - a\<close> can be.\<close>

definition nan_or_zero :: "float64 \<Rightarrow> bool" where
  "nan_or_zero a = (a = NaN \<or> a = Fin 0)"

text \<open>
  Exact real arithmetic: a state all of whose masses and position components are
  finite, with a finite \<open>G\<close>. The real components of a finite vector, the vector of
  three reals, and the Euclidean distance of two finite positions.
\<close>

definition finite_state :: "float64 \<Rightarrow> Simulation \<Rightarrow> bool" where
  "finite_state G s =
     (is_fin G \<and> list_all is_fin (masses s) \<and> list_all (\<lambda>b. fin3 (fst b)) (bodies s))"

fun cx :: "vec3 \<Rightarrow> real" where
  "cx (Vec3 x y z) = rval x"

fun cy :: "vec3 \<Rightarrow> real" where
  "cy (Vec3 x y z) = rval y"

fun cz :: "vec3 \<Rightarrow> real" where
  "cz (Vec3 x y z) = rval z"

definition rvec :: "real \<Rightarrow> real \<Rightarrow> real \<Rightarrow> vec3" where
  "rvec a b c = Vec3 (Fin a) (Fin b) (Fin c)"

definition dist3 :: "vec3 \<Rightarrow> vec3 \<Rightarrow> real" where
  "dist3 p q = sqrt ((cx q - cx p)\<^sup>2 + (cy q - cy p)\<^sup>2 + (cz q - cz p)\<^sup>2)"

section \<open>Python list indexing\<close>


lemma py_index_bound: "py_index len i = Some k \<Longrightarrow> k < len"
  by (auto simp: py_index_def split: if_splits)

lemma zip_remove_at:
  "length xs = length ys \<Longrightarrow> remove_at k (zip xs ys) = zip (remove_at k xs) (remove_at k ys)"
  by (simp add: remove_at_def take_zip drop_zip)

lemma py_get_nat: "i < length xs \<Longrightarrow> py_get xs (int i) = Inr (xs ! i)"
  by (simp add: py_get_def py_index_def)

section \<open>Arithmetic on vectors\<close>

lemma vmul_smul: "vmul v c = smul c v"
  by (cases v) (simp add: mult.commute)

lemma smul_smul: "smul c (smul c v) = smul (c ^ 2) v"
  by (cases v) (simp add: power2_eq_square ac_simps)

lemma fin_power: "Fin a ^ k = Fin (a ^ k)"
  by (induction k) (simp_all add: one_float64_def)

section \<open>Rounding to single precision\<close>

lemma bit_length_bounds:
  "0 < k \<Longrightarrow> (2::nat) ^ (bit_length k - 1) \<le> k \<and> k < (2::nat) ^ bit_length k"
proof (induction k rule: bit_length.induct)
  case (1 k)
  show ?case
  proof (cases "k div 2 = 0")
    case True
    with "1.prems" have "k = 1" by (simp add: div_eq_0_iff) 
    then show ?thesis by (simp add: bit_length.simps)
  next
    case False
    then have h: "(2::nat) ^ (bit_length (k div 2) - 1) \<le> k div 2
        \<and> k div 2 < (2::nat) ^ bit_length (k div 2)"
      using "1.IH" "1.prems" by simp
    have pos: "0 < bit_length (k div 2)"
      using False by (subst bit_length.simps) simp
    have b: "bit_length k = Suc (bit_length (k div 2))"
      using "1.prems" by (subst bit_length.simps) simp
    have "(2::nat) ^ bit_length (k div 2) = 2 * 2 ^ (bit_length (k div 2) - 1)"
      using pos by (cases "bit_length (k div 2)") simp_all
    with h have "(2::nat) ^ bit_length (k div 2) \<le> k"
      by linarith
    moreover from h have "k < 2 * 2 ^ bit_length (k div 2)"
      by linarith
    ultimately show ?thesis
      by (simp add: b)
  qed
qed

lemma round_half_even_nearest:
  assumes "0 \<le> q"
  shows "\<bar>real (round_half_even q) - q\<bar> \<le> \<bar>real w - q\<bar>"
proof -
  define f where "f = nat \<lfloor>q\<rfloor>"
  have "real f = of_int \<lfloor>q\<rfloor>"
    using assms by (simp add: f_def)
  then have f: "real f \<le> q" "q < real f + 1"
    by linarith+
  have "w \<le> f \<or> Suc f \<le> w"
    by arith
  then have "real w \<le> real f \<or> real (Suc f) \<le> real w"
    by (simp only: of_nat_le_iff)
  then have w: "real w \<le> real f \<or> real f + 1 \<le> real w"
    by (simp add: add.commute)
  have "real (round_half_even q) = real f \<and> q - real f \<le> 1/2
      \<or> real (round_half_even q) = real f + 1 \<and> 1/2 \<le> q - real f"
    by (auto simp: round_half_even_def Let_def f_def [symmetric])
  then show ?thesis
  proof (elim disjE conjE)
    assume r: "real (round_half_even q) = real f" "q - real f \<le> 1/2"
    from w show ?thesis
    proof
      assume "real w \<le> real f"
      with f r show ?thesis by linarith
    next
      assume "real f + 1 \<le> real w"
      with f r show ?thesis by linarith
    qed
  next
    assume r: "real (round_half_even q) = real f + 1" "1/2 \<le> q - real f"
    from w show ?thesis
    proof
      assume "real w \<le> real f"
      with f r show ?thesis by linarith
    next
      assume "real f + 1 \<le> real w"
      with f r show ?thesis by linarith
    qed
  qed
qed

lemma round_half_even_bound:
  assumes "0 \<le> q" and "q < real b"
  shows "round_half_even q \<le> b"
proof -
  define f where "f = nat \<lfloor>q\<rfloor>"
  have "real f = of_int \<lfloor>q\<rfloor>"
    using assms by (simp add: f_def)
  then have f: "real f \<le> q"
    by linarith
  with assms have "f < b" by linarith
  moreover have "round_half_even q \<le> Suc f"
    by (auto simp: round_half_even_def Let_def f_def [symmetric])
  ultimately show ?thesis by linarith
qed

lemma shift_bounds:
  fixes x :: real
  assumes "0 \<le> x" and "j = single_shift x"
  shows "x < 2 ^ (24 + j)" and "0 < j \<Longrightarrow> 2 ^ (23 + j) \<le> x"
proof -
  define k where "k = nat \<lfloor>x\<rfloor>"
  have "real k = of_int \<lfloor>x\<rfloor>"
    using assms(1) by (simp add: k_def)
  then have k: "real k \<le> x" "x < real k + 1"
    by linarith+
  have le: "bit_length k \<le> 24 + j"
    using assms(2) by (simp add: k_def single_shift_def)
  show "x < 2 ^ (24 + j)"
  proof (cases "k = 0")
    case True
    with k have "x < 1" by simp
    also have "(1::real) \<le> 2 ^ (24 + j)" by simp
    finally show ?thesis .
  next
    case False
    then have "k < 2 ^ bit_length k"
      using bit_length_bounds [of k] by simp
    then have "k + 1 \<le> 2 ^ bit_length k" by simp
    also have "\<dots> \<le> 2 ^ (24 + j)"
      using le by (simp add: power_increasing)
    finally have "real (k + 1) \<le> real ((2::nat) ^ (24 + j))"
      by (rule of_nat_mono)
    then have "real k + 1 \<le> (2::real) ^ (24 + j)"
      by simp
    with k show ?thesis by linarith
  qed
  show "2 ^ (23 + j) \<le> x" if "0 < j"
  proof -
    from that assms(2) have b: "bit_length k = 24 + j"
      by (simp add: k_def single_shift_def)
    then have "k \<noteq> 0"
      by (subst (asm) bit_length.simps) (simp split: if_splits)
    then have "2 ^ (bit_length k - 1) \<le> k"
      using bit_length_bounds [of k] by simp
    then have "(2::nat) ^ (23 + j) \<le> k"
      by (simp add: b)
    then have "real ((2::nat) ^ (23 + j)) \<le> real k"
      by (rule of_nat_mono)
    then have "(2::real) ^ (23 + j) \<le> real k"
      by simp
    with k show ?thesis by linarith
  qed
qed

lemma single_units_nearest:
  assumes "0 \<le> x" and "m < 2 ^ 24"
  shows "\<bar>real (single_units x) - x\<bar> \<le> \<bar>real (m * 2 ^ k) - x\<bar>"
proof -
  define j where "j = single_shift x"
  define q where "q = x / 2 ^ j"
  have q: "0 \<le> q" and x: "x = q * 2 ^ j"
    using assms(1) by (simp_all add: q_def)
  have su: "real (single_units x) = real (round_half_even q) * 2 ^ j"
    by (simp add: single_units_def j_def [symmetric] q_def Let_def)
  have near: "\<bar>real (single_units x) - x\<bar> \<le> \<bar>real (w * 2 ^ j) - x\<bar>" for w
  proof -
    have "\<bar>real (round_half_even q) - q\<bar> * 2 ^ j \<le> \<bar>real w - q\<bar> * 2 ^ j"
      using round_half_even_nearest [OF q, of w] by (simp add: mult_right_mono)
    moreover have "real (single_units x) - x = (real (round_half_even q) - q) * 2 ^ j"
      unfolding su by (subst x) (simp add: left_diff_distrib)
    then have "\<bar>real (round_half_even q) - q\<bar> * 2 ^ j = \<bar>real (single_units x) - x\<bar>"
      by (simp add: abs_mult)
    moreover have "real (w * 2 ^ j) - x = (real w - q) * 2 ^ j"
      by (subst x) (simp add: left_diff_distrib)
    then have "\<bar>real w - q\<bar> * 2 ^ j = \<bar>real (w * 2 ^ j) - x\<bar>"
      by (simp add: abs_mult)
    ultimately show ?thesis by simp
  qed
  show ?thesis
  proof (cases "j \<le> k")
    case True
    then have eq: "(m * 2 ^ (k - j)) * 2 ^ j = m * 2 ^ k"
      by (simp add: power_add [symmetric])
    show ?thesis
      using near [of "m * 2 ^ (k - j)"] by (simp only: eq)
  next
    case False
    then have j: "0 < j" and kj: "Suc k \<le> j" by simp_all
    have "m * 2 ^ k < 2 ^ 24 * 2 ^ k"
      using assms(2) by simp
    also have "\<dots> = 2 ^ (23 + Suc k)"
      by (simp add: power_add)
    also have "\<dots> \<le> 2 ^ (23 + j)"
      using kj by (simp add: power_increasing del: power_Suc add_Suc_right)
    finally have "real (m * 2 ^ k) < real ((2::nat) ^ (23 + j))"
      by (simp only: of_nat_less_iff)
    moreover have "2 ^ (23 + j) \<le> x"
      using shift_bounds(2) [OF assms(1) j_def j] .
    ultimately have "\<bar>real (2 ^ 23 * 2 ^ j) - x\<bar> \<le> \<bar>real (m * 2 ^ k) - x\<bar>"
      by (simp add: power_add)
    with near [of "2 ^ 23"] show ?thesis by linarith
  qed
qed

lemma round_half_even_floor: "nat \<lfloor>q\<rfloor> \<le> round_half_even q"
  by (simp add: round_half_even_def Let_def)

lemma single_units_shape:
  assumes "0 \<le> x" and "x < (2 ^ 25 - 1) * 2 ^ 252"
  defines "j \<equiv> single_shift x"
  defines "R \<equiv> round_half_even (x / 2 ^ j)"
  shows "single_units x = R * 2 ^ j" and "R \<le> 2 ^ 24" and "j \<le> 253"
    and "R = 2 ^ 24 \<Longrightarrow> j < 253" and "0 < j \<Longrightarrow> 2 ^ 23 \<le> R"
proof -
  define q where "q = x / 2 ^ j"
  have q: "0 \<le> q" and x: "x = q * 2 ^ j"
    using assms(1) by (simp_all add: q_def)
  have R: "R = round_half_even q"
    by (simp add: R_def q_def)
  show "single_units x = R * 2 ^ j"
    by (simp add: single_units_def j_def R_def Let_def)
  have xlt: "x < 2 ^ (24 + j)"
    unfolding j_def by (rule shift_bounds(1) [OF assms(1) refl])
  have xge: "2 ^ (23 + j) \<le> x" if "0 < j"
    using that unfolding j_def by (rule shift_bounds(2) [OF assms(1) refl])
  from xlt have q24: "q < 2 ^ 24"
    by (simp add: q_def power_add field_simps)
  from q24 have "q < real ((2::nat) ^ 24)" by simp
  then show R24: "R \<le> 2 ^ 24"
    unfolding R using q by (intro round_half_even_bound)
  show j253: "j \<le> 253"
  proof (rule ccontr)
    assume "\<not> j \<le> 253"
    then have "254 \<le> j" by simp
    then have "(2::real) ^ (23 + 254) \<le> 2 ^ (23 + j)"
      by (intro power_increasing) simp_all
    also have "\<dots> \<le> x"
      using xge \<open>254 \<le> j\<close> by simp
    finally show False using assms(2) by simp
  qed
  show "j < 253" if R24: "R = 2 ^ 24"
  proof (rule ccontr)
    assume "\<not> j < 253"
    with j253 have j: "j = 253" by simp
    have "\<bar>real R - q\<bar> \<le> \<bar>real (2 ^ 24 - 1 :: nat) - q\<bar>"
      unfolding R by (rule round_half_even_nearest [OF q])
    moreover have "q < 2 ^ 24 - 1 / 2"
      using assms(2) by (simp add: q_def j field_simps)
    ultimately show False
      using q24 by (simp add: R24 abs_if split: if_splits)
  qed
  show "2 ^ 23 \<le> R" if "0 < j"
  proof -
    have "2 ^ (23 + j) \<le> x"
      using that by (rule xge)
    then have "real ((2::nat) ^ 23) \<le> q"
      by (simp add: q_def power_add field_simps)
    then have "(2::nat) ^ 23 \<le> nat \<lfloor>q\<rfloor>"
      by (rule le_nat_floor)
    also have "\<dots> \<le> R"
      unfolding R by (rule round_half_even_floor)
    finally show ?thesis .
  qed
qed

lemma single_units_representable:
  assumes "0 \<le> x" and "x < (2 ^ 25 - 1) * 2 ^ 252"
  shows "\<exists>m k. m < (2::nat) ^ 24 \<and> k \<le> (253::nat) \<and> single_units x = m * 2 ^ k"
proof -
  define j where "j = single_shift x"
  define R where "R = round_half_even (x / 2 ^ j)"
  note shape = single_units_shape [OF assms, folded j_def, folded R_def]
  show ?thesis
  proof (cases "R < 2 ^ 24")
    case True
    with shape(1,3) show ?thesis by blast
  next
    case False
    with shape(2) have R24: "R = 2 ^ 24" by simp
    then have "Suc j \<le> 253"
      using shape(4) by simp
    moreover have "single_units x = 2 ^ 23 * 2 ^ Suc j"
      by (simp add: shape(1) R24)
    moreover have "(2::nat) ^ 23 < 2 ^ 24" by simp
    ultimately show ?thesis by blast
  qed
qed

lemma round_half_even_tie:
  assumes "0 \<le> q" and "w \<noteq> round_half_even q"
    and "\<bar>real w - q\<bar> = \<bar>real (round_half_even q) - q\<bar>"
  shows "even (round_half_even q)"
proof -
  define f where "f = nat \<lfloor>q\<rfloor>"
  have "real f = of_int \<lfloor>q\<rfloor>"
    using assms(1) by (simp add: f_def)
  then have f: "real f \<le> q" "q < real f + 1"
    by linarith+
  show ?thesis
  proof (cases "q - real f = 1/2")
    case True
    then show ?thesis
      by (simp add: round_half_even_def Let_def f_def [symmetric])
  next
    case False
    then have "q - real f < 1/2 \<or> 1/2 < q - real f"
      by linarith
    then have False
    proof
      assume d: "q - real f < 1/2"
      then have r: "round_half_even q = f"
        by (simp add: round_half_even_def Let_def f_def [symmetric])
      with assms(2) have "w < f \<or> f < w" by arith
      then have "Suc w \<le> f \<or> Suc f \<le> w" by arith
      then have "real (Suc w) \<le> real f \<or> real (Suc f) \<le> real w"
        by (simp only: of_nat_le_iff)
      then show False
      proof
        assume "real (Suc w) \<le> real f"
        with r f d assms(3) show False by (simp; linarith)
      next
        assume "real (Suc f) \<le> real w"
        with r f d assms(3) show False by (simp; linarith)
      qed
    next
      assume d: "1/2 < q - real f"
      then have "\<not> q - real f < 1/2" by linarith
      with d have r: "round_half_even q = Suc f"
        by (simp add: round_half_even_def Let_def f_def [symmetric])
      with assms(2) have "w < Suc f \<or> Suc f < w" by arith
      then have "w \<le> f \<or> Suc (Suc f) \<le> w" by arith
      then have "real w \<le> real f \<or> real (Suc (Suc f)) \<le> real w"
        by (simp only: of_nat_le_iff)
      then show False
      proof
        assume "real w \<le> real f"
        with r f d assms(3) show False by (simp; linarith)
      next
        assume "real (Suc (Suc f)) \<le> real w"
        with r f d assms(3) show False by (simp; linarith)
      qed
    qed
    then show ?thesis ..
  qed
qed

lemma single_units_tie:
  assumes "0 \<le> x" and "x < (2 ^ 25 - 1) * 2 ^ 252" and "m < 2 ^ 24"
    and "m * 2 ^ k \<noteq> single_units x"
    and "\<bar>real (m * 2 ^ k) - x\<bar> = \<bar>real (single_units x) - x\<bar>"
  shows "\<exists>m' k'. m' < (2::nat) ^ 24 \<and> k' \<le> (253::nat) \<and> even m' \<and> (k' = 0 \<or> 2 ^ 23 \<le> m')
           \<and> single_units x = m' * 2 ^ k'"
proof -
  define j where "j = single_shift x"
  define q where "q = x / 2 ^ j"
  define R where "R = round_half_even q"
  note shape = single_units_shape [OF assms(1,2), folded j_def, folded q_def, folded R_def]
  have q: "0 \<le> q" and x: "x = q * 2 ^ j"
    using assms(1) by (simp_all add: q_def)
  have "j \<le> k"
  proof (rule ccontr)
    assume "\<not> j \<le> k"
    then have j: "0 < j" and kj: "Suc k \<le> j" by simp_all
    have "m * 2 ^ k < 2 ^ 24 * 2 ^ k"
      using assms(3) by simp
    also have "\<dots> = 2 ^ (23 + Suc k)"
      by (simp add: power_add)
    also have "\<dots> \<le> 2 ^ (23 + j)"
      using kj by (simp add: power_increasing del: power_Suc add_Suc_right)
    finally have "real (m * 2 ^ k) < real ((2::nat) ^ (23 + j))"
      by (simp only: of_nat_less_iff)
    moreover have "2 ^ (23 + j) \<le> x"
      using shift_bounds(2) [OF assms(1) j_def j] .
    moreover have "\<bar>real (single_units x) - x\<bar> \<le> \<bar>real (2 ^ 23 * 2 ^ j) - x\<bar>"
      by (rule single_units_nearest [OF assms(1)]) simp
    ultimately show False
      using assms(5) by (simp add: power_add)
  qed
  define w where "w = m * 2 ^ (k - j)"
  have wj: "m * 2 ^ k = w * 2 ^ j"
    using \<open>j \<le> k\<close> by (simp add: w_def power_add [symmetric])
  have "w \<noteq> R"
    using assms(4) by (auto simp: wj shape(1))
  moreover have "\<bar>real w - q\<bar> = \<bar>real R - q\<bar>"
  proof -
    have "real (w * 2 ^ j) - x = (real w - q) * 2 ^ j"
      by (subst x) (simp add: left_diff_distrib)
    moreover have "real (R * 2 ^ j) - x = (real R - q) * 2 ^ j"
      by (subst x) (simp add: left_diff_distrib)
    ultimately have "\<bar>(real w - q) * 2 ^ j\<bar> = \<bar>(real R - q) * 2 ^ j\<bar>"
      using assms(5) by (simp only: wj shape(1))
    then show ?thesis
      by (simp add: abs_mult)
  qed
  ultimately have ev: "even R"
    unfolding R_def using q by (intro round_half_even_tie [of q w]) simp_all
  show ?thesis
  proof (cases "R < 2 ^ 24")
    case True
    have "j = 0 \<or> 2 ^ 23 \<le> R"
      using shape(5) by (cases "j = 0") simp_all
    with True ev shape(1,3) show ?thesis by blast
  next
    case False
    with shape(2) have R24: "R = 2 ^ 24" by simp
    then have "Suc j \<le> 253"
      using shape(4) by simp
    moreover have "single_units x = 2 ^ 23 * 2 ^ Suc j"
      by (simp add: shape(1) R24)
    moreover have "(2::nat) ^ 23 < 2 ^ 24" "even ((2::nat) ^ 23)" "(2::nat) ^ 23 \<le> 2 ^ 23"
      by simp_all
    ultimately show ?thesis by blast
  qed
qed

lemma is_single_minus: "is_single (- z) = is_single z"
  by (simp add: is_single_def)

lemma is_single_zero: "is_single 0"
  unfolding is_single_def by (rule exI [of _ 0], rule exI [of _ 0]) simp

lemma overflow_units: "single_overflow * 2 ^ 149 = (2 ^ 25 - 1) * 2 ^ 252"
  by (simp add: single_overflow_def)

lemma round_magnitude:
  assumes "0 \<le> a" and "a < single_overflow"
  defines "y \<equiv> real (single_units (a * 2 ^ 149)) / 2 ^ 149"
  shows "is_single y" and "is_single z \<Longrightarrow> \<bar>y - a\<bar> \<le> \<bar>z - a\<bar>"
proof -
  let ?x = "a * 2 ^ 149"
  have "?x < single_overflow * 2 ^ 149"
    using assms(2) by (rule mult_strict_right_mono) simp
  then have x: "0 \<le> ?x" "?x < (2 ^ 25 - 1) * 2 ^ 252"
    using assms(1) by (simp_all only: overflow_units zero_le_mult_iff) simp
  have y: "y * 2 ^ 149 = real (single_units ?x)" "0 \<le> y"
    by (simp_all add: y_def)
  show "is_single y"
  proof -
    from single_units_representable [OF x] obtain m k
      where m: "m < (2::nat) ^ 24" "k \<le> (253::nat)" and u: "single_units ?x = m * 2 ^ k"
      by (elim exE conjE)
    have "\<bar>y\<bar> = y"
      using y(2) by (rule abs_of_nonneg)
    with y(1) u have "\<bar>y\<bar> * 2 ^ 149 = real (m * 2 ^ k)"
      by (simp only:)
    with m show ?thesis
      unfolding is_single_def by (intro exI conjI)
  qed
  have near: "\<bar>y - a\<bar> \<le> \<bar>w - a\<bar>" if w: "0 \<le> w" "is_single w" for w
  proof -
    from w obtain m k where m: "m < (2::nat) ^ 24" and e: "w * 2 ^ 149 = real (m * 2 ^ k)"
      by (auto simp: is_single_def)
    have "\<bar>y * 2 ^ 149 - ?x\<bar> \<le> \<bar>w * 2 ^ 149 - ?x\<bar>"
      unfolding y(1) e by (rule single_units_nearest [OF x(1) m])
    then have "\<bar>(y - a) * 2 ^ 149\<bar> \<le> \<bar>(w - a) * 2 ^ 149\<bar>"
      by (simp only: left_diff_distrib)
    moreover have "\<bar>(2::real) ^ 149\<bar> = 2 ^ 149"
      by simp
    ultimately have "\<bar>y - a\<bar> * 2 ^ 149 \<le> \<bar>w - a\<bar> * 2 ^ 149"
      by (simp only: abs_mult)
    then show ?thesis
      by (rule mult_right_le_imp_le) simp
  qed
  show "\<bar>y - a\<bar> \<le> \<bar>z - a\<bar>" if "is_single z"
  proof (cases "0 \<le> z")
    case True
    then show ?thesis using that by (rule near)
  next
    case False
    have "\<bar>y - a\<bar> \<le> \<bar>0 - a\<bar>"
      by (rule near) (simp_all add: is_single_zero)
    with False assms(1) show ?thesis by linarith
  qed
qed

lemma even_single_minus: "even_single (- z) = even_single z"
  by (simp add: even_single_def)

lemma round_magnitude_tie:
  assumes "0 \<le> a" and "a < single_overflow"
  defines "y \<equiv> real (single_units (a * 2 ^ 149)) / 2 ^ 149"
  assumes "is_single z" and "z \<noteq> y" and "\<bar>z - a\<bar> = \<bar>y - a\<bar>"
  shows "even_single y"
proof -
  let ?x = "a * 2 ^ 149"
  have "?x < single_overflow * 2 ^ 149"
    using assms(2) by (rule mult_strict_right_mono) simp
  then have x: "0 \<le> ?x" "?x < (2 ^ 25 - 1) * 2 ^ 252"
    using assms(1) by (simp_all only: overflow_units zero_le_mult_iff) simp
  have y: "y * 2 ^ 149 = real (single_units ?x)" "0 \<le> y"
    by (simp_all add: y_def)
  have "\<bar>y - a\<bar> \<le> \<bar>0 - a\<bar>"
    unfolding y_def by (rule round_magnitude(2) [OF assms(1,2)]) (rule is_single_zero)
  with assms(1,6) have z: "0 \<le> z"
    by linarith
  with assms(4) obtain m k where m: "m < (2::nat) ^ 24" and e: "z * 2 ^ 149 = real (m * 2 ^ k)"
    by (auto simp: is_single_def)
  have ne: "m * 2 ^ k \<noteq> single_units ?x"
  proof
    assume "m * 2 ^ k = single_units ?x"
    with e y(1) have "z * 2 ^ 149 = y * 2 ^ 149"
      by (simp only:)
    then have "z = y" by simp
    with assms(5) show False ..
  qed
  have "\<bar>(z - a) * 2 ^ 149\<bar> = \<bar>(y - a) * 2 ^ 149\<bar>"
    using assms(6) by (simp only: abs_mult)
  then have "\<bar>z * 2 ^ 149 - ?x\<bar> = \<bar>y * 2 ^ 149 - ?x\<bar>"
    by (simp only: left_diff_distrib)
  then have eq: "\<bar>real (m * 2 ^ k) - ?x\<bar> = \<bar>real (single_units ?x) - ?x\<bar>"
    by (simp only: e y(1))
  from single_units_tie [OF x m ne eq] obtain m' k'
    where m': "m' < (2::nat) ^ 24" "k' \<le> (253::nat)" "even m'" "k' = 0 \<or> 2 ^ 23 \<le> m'"
      and u: "single_units ?x = m' * 2 ^ k'"
    by (elim exE conjE)
  have "\<bar>y\<bar> = y"
    using y(2) by (rule abs_of_nonneg)
  with y(1) u have "\<bar>y\<bar> * 2 ^ 149 = real (m' * 2 ^ k')"
    by (simp only:)
  with m' show ?thesis
    unfolding even_single_def by (intro exI conjI)
qed

lemma single_cast_finite:
  assumes "\<not> single_overflow \<le> r" and "\<not> r \<le> - single_overflow" and "is_single q"
    and "\<And>z. is_single z \<Longrightarrow> \<bar>q - r\<bar> \<le> \<bar>z - r\<bar>"
    and "\<And>z. is_single z \<Longrightarrow> z \<noteq> q \<Longrightarrow> \<bar>z - r\<bar> = \<bar>q - r\<bar> \<Longrightarrow> even_single q"
  shows "single_cast (Fin r) (Fin q)"
  using assms by (auto simp: single_cast_def)

lemma round_single_cast: "single_cast (Fin r) (round_single r)"
proof -
  consider "single_overflow \<le> r" | "r \<le> - single_overflow"
    | "0 \<le> r" "r < single_overflow" | "r < 0" "- single_overflow < r"
    by linarith
  then show ?thesis
  proof cases
    case 1
    then show ?thesis by (simp add: single_cast_def round_single_def)
  next
    case 2
    moreover have "0 < single_overflow" by (simp add: single_overflow_def)
    ultimately show ?thesis by (simp add: single_cast_def round_single_def)
  next
    case 3
    then have b: "\<not> single_overflow \<le> r" "\<not> r \<le> - single_overflow"
      by linarith+
    with 3 have "round_single r = Fin (real (single_units (r * 2 ^ 149)) / 2 ^ 149)"
      by (simp add: round_single_def)
    then show ?thesis
      using single_cast_finite [OF b round_magnitude [OF 3] round_magnitude_tie [OF 3]] by simp
  next
    case 4
    then have a: "0 \<le> - r" "- r < single_overflow" by simp_all
    let ?y = "real (single_units (- r * 2 ^ 149)) / 2 ^ 149"
    have "is_single (- ?y)"
      using round_magnitude(1) [OF a] by (simp only: is_single_minus)
    moreover have "\<bar>- ?y - r\<bar> \<le> \<bar>z - r\<bar>" if "is_single z" for z
    proof -
      from that have "is_single (- z)" by (simp only: is_single_minus)
      then have "\<bar>?y - (- r)\<bar> \<le> \<bar>- z - (- r)\<bar>"
        by (rule round_magnitude(2) [OF a])
      then show ?thesis by linarith
    qed
    moreover have "even_single (- ?y)"
      if "is_single z" "z \<noteq> - ?y" "\<bar>z - r\<bar> = \<bar>- ?y - r\<bar>" for z
    proof -
      from that(1) have "is_single (- z)" by (simp only: is_single_minus)
      moreover from that(2) have "- z \<noteq> ?y" by linarith
      moreover from that(3) have "\<bar>- z - (- r)\<bar> = \<bar>?y - (- r)\<bar>" by linarith
      ultimately have "even_single ?y"
        by (rule round_magnitude_tie [OF a])
      then show ?thesis by (simp only: even_single_minus)
    qed
    moreover have b: "\<not> single_overflow \<le> r" "\<not> r \<le> - single_overflow" "\<not> 0 \<le> r"
      using 4 a by linarith+
    ultimately have "single_cast (Fin r) (Fin (- ?y))"
      by (intro single_cast_finite b)
    moreover from b have "round_single r = Fin (- ?y)"
      by (simp add: round_single_def)
    ultimately show ?thesis
      by simp
  qed
qed

lemma single_cast_idem:
  assumes "single_cast (Fin r) (Fin q)"
  shows "round_single q = Fin q"
proof -
  have "0 < single_overflow" by (simp add: single_overflow_def)
  from assms have q: "is_single q"
    by (auto simp: single_cast_def split: if_splits)
  then obtain m k where m: "m < (2::nat) ^ 24" "k \<le> (253::nat)" "\<bar>q\<bar> * 2 ^ 149 = real (m * 2 ^ k)"
    by (auto simp: is_single_def)
  have "m * 2 ^ k \<le> (2 ^ 24 - 1) * 2 ^ 253"
    using m(1,2) by (intro mult_mono power_increasing) simp_all
  then have "real (m * 2 ^ k) \<le> real ((2 ^ 24 - 1) * 2 ^ 253)"
    by (rule of_nat_mono)
  also have "\<dots> < single_overflow * 2 ^ 149"
    by (simp add: single_overflow_def)
  finally have "\<bar>q\<bar> * 2 ^ 149 < single_overflow * 2 ^ 149"
    by (simp only: m(3))
  then have "\<bar>q\<bar> < single_overflow"
    by (rule mult_right_less_imp_less) simp
  then have b: "\<not> single_overflow \<le> q" "\<not> q \<le> - single_overflow"
    by linarith+
  from round_single_cast [of q] b obtain p where p: "round_single q = Fin p"
    and near: "\<forall>z. is_single z \<longrightarrow> \<bar>p - q\<bar> \<le> \<bar>z - q\<bar>"
    by (auto simp: single_cast_def)
  from near q have "\<bar>p - q\<bar> \<le> \<bar>q - q\<bar>" by blast
  with p show ?thesis by simp
qed

lemma single_of_cast: "single_cast x (single_of x)"
  by (cases x) (simp_all add: round_single_cast, simp_all add: single_cast_def)

lemma vec_single_cast: "vec_cast v (vec_single v)"
  by (cases v) (simp add: single_of_cast)

lemma astype_single_cast: "body_cast b (astype_double (astype_single b))"
  by (simp add: body_cast_def astype_double_def astype_single_def vec_single_cast)

lemma single_of_idem: "single_of (single_of x) = single_of x"
proof (cases x)
  case (Fin r)
  show ?thesis
  proof (cases "round_single r")
    case (Fin q)
    with round_single_cast [of r] have "round_single q = Fin q"
      by (intro single_cast_idem [of r]) simp
    with Fin \<open>x = Fin r\<close> show ?thesis by simp
  qed (simp_all add: Fin)
qed simp_all

lemma astype_single_idem: "astype_single (astype_double (astype_single b)) = astype_double (astype_single b)"
proof -
  have "vec_single (vec_single v) = vec_single v" for v
    by (cases v) (simp add: single_of_idem)
  then show ?thesis
    by (simp add: astype_double_def astype_single_def)
qed

text \<open>The cast evaluated: \<open>1/10\<close>, \<open>1/100\<close> and \<open>99/100\<close> are not single-precision values.\<close>

lemma round_single_values:
  "round_single 0 = Fin 0"
  "round_single 1 = Fin 1"
  "round_single (1/10) = Fin (13421773 / 134217728)"
  "round_single (- (1/10)) = Fin (- (13421773 / 134217728))"
  "round_single (1/100) = Fin (5368709 / 536870912)"
  "round_single (99/100) = Fin (4152361 / 4194304)"
  by (simp_all add: round_single_def single_overflow_def single_units_def single_shift_def
      round_half_even_def Let_def bit_length.simps)

section \<open>The loops in closed form\<close>

lemma dv_dt_loop_sum:
  assumes "py_get (bodies s) i = Inr bi"
    and "\<forall>j \<in> set js. j < length (bodies s) \<and> j < length (masses s)"
  shows "dv_dt_loop G s i js F =
         Inr (F + sum_list (map (pull G s (fst bi)) (filter (\<lambda>j. int j \<noteq> i) js)))"
  using assms
proof (induction js arbitrary: F)
  case Nil
  then show ?case by simp
next
  case (Cons j js)
  then show ?case
    by (auto simp: py_get_nat pull_def Let_def add.assoc)
qed

text \<open>On a state in lock step, whatever is passed for \<open>body\<close>.\<close>

lemma dv_dt_accel_sum:
  assumes "lock_step s" and "i < length (bodies s)"
  shows "dv_dt G (int i) body s = Inr (accel_sum G s i)"
proof -
  have len: "nat (n s) = length (bodies s)"
    using assms by (simp add: lock_step_def)
  have g: "py_get (bodies s) (int i) = Inr (bodies s ! i)"
    using assms by (simp add: py_get_nat)
  obtain b where d: "default_body s (int i) body = Inr b"
    using g by (cases body) (simp_all add: default_body_def)
  have r: "\<forall>j \<in> set [0..<length (bodies s)]. j < length (bodies s) \<and> j < length (masses s)"
    using assms by (simp add: lock_step_def)
  have "dv_dt_loop G s (int i) [0..<length (bodies s)] 0 = Inr (accel_sum G s i)"
    by (simp add: dv_dt_loop_sum [OF g r] accel_sum_def)
  then show ?thesis
    by (simp add: dv_dt_def d len)
qed

lemma ode_accel_sum:
  assumes "lock_step s" and "i < length (bodies s)"
  shows "ode G (int i) None s = Inr (snd (bodies s ! i), accel_sum G s i)"
  using assms by (simp add: ode_def default_body_def py_get_nat dv_dt_accel_sum)

lemma fill_upt:
  "k \<le> length xs \<Longrightarrow> fold (\<lambda>i ys. ys[i := g i]) [0..<k] xs = map g [0..<k] @ drop k xs"
proof (induction k)
  case 0
  then show ?case by simp
next
  case (Suc k)
  then have "fold (\<lambda>i ys. ys[i := g i]) [0..<Suc k] xs = (map g [0..<k] @ drop k xs)[k := g k]"
    by simp
  also have "\<dots> = map g [0..<k] @ (drop k xs)[0 := g k]"
    by (simp add: list_update_append)
  also have "drop k xs = xs ! k # drop (Suc k) xs"
    using Suc.prems by (simp add: Cons_nth_drop_Suc)
  finally show ?case by simp
qed

lemma fill_all:
  "fold (\<lambda>i ys. ys[i := Some (f i)]) [0..<k] (replicate k None) = map (\<lambda>i. Some (f i)) [0..<k]"
  using fill_upt [of k "replicate k None" "\<lambda>i. Some (f i)"] by simp

lemma euler_loop_fold:
  assumes "lock_step s" and "\<forall>i \<in> set js. i < length (bodies s)"
  shows "euler_loop G dt s js new =
         Inr (fold (\<lambda>i ys. ys[i := Some (euler_formula G dt s i)]) js new)"
  using assms(2)
proof (induction js arbitrary: new)
  case Nil
  then show ?case by simp
next
  case (Cons i js)
  then show ?case
    using assms(1)
    by (simp add: py_get_nat ode_accel_sum euler_formula_def body_add_def body_mul_def vmul_smul
        Let_def)
qed

lemma sieuler_loop_fold:
  assumes "lock_step s" and "\<forall>i \<in> set js. i < length (bodies s)"
  shows "sieuler_loop G dt s js new =
         Inr (fold (\<lambda>i ys. ys[i := Some (sieuler_formula G dt s i)]) js new)"
  using assms(2)
proof (induction js arbitrary: new)
  case Nil
  then show ?case by simp
next
  case (Cons i js)
  then show ?case
    using assms(1)
    by (simp add: py_get_nat ode_accel_sum sieuler_formula_def sieuler_exact_def body_add_def body_mul_def
        vmul_smul smul_smul Let_def)
qed

section \<open>The example states evaluated\<close>

lemma upt_2: "[0..<2] = [0, Suc 0]"
  by (simp add: numeral_2_eq_2)

lemma two_body_lock_step: "lock_step two_body"
  by (simp add: lock_step_def two_body_def init_def)

lemma two_body_fields:
  "length (bodies two_body) = 2"
  "t two_body = Fin 0"
  "bodies two_body ! 0 = (Vec3 (Fin 0) (Fin 0) (Fin 0), Vec3 (Fin 0) (Fin 0) (Fin 0))"
  "bodies two_body ! Suc 0 = (Vec3 (Fin 1) (Fin 0) (Fin 0), Vec3 (Fin 0) (Fin 1) (Fin 0))"
  by (simp_all add: two_body_def init_def)

lemma two_body_accel:
  "accel_sum (Fin 1) two_body 0 = Vec3 (Fin 1) (Fin 0) (Fin 0)"
  "accel_sum (Fin 1) two_body (Suc 0) = Vec3 (Fin (-1)) (Fin 0) (Fin 0)"
  by (simp_all add: accel_sum_def two_body_def init_def upt_2 pull_def minus_float64_def
      fin_power zero_vec3_def)

lemma step_euler_closed:
  assumes "lock_step s"
  shows "step_euler G dt s =
      (Inr (), s\<lparr>bodies := map (euler_formula G dt s) [0..<length (bodies s)], t := t s + dt\<rparr>)"
proof -
  have len: "nat (n s) = length (bodies s)"
    using assms by (simp add: lock_step_def)
  have "euler_loop G dt s [0..<nat (n s)] (replicate (nat (n s)) None) =
        Inr (map (\<lambda>i. Some (euler_formula G dt s i)) [0..<length (bodies s)])"
    using assms by (simp add: euler_loop_fold len fill_all)
  then show ?thesis
    by (simp add: step_euler_def comp_def)
qed

lemma step_sieuler_closed:
  assumes "lock_step s"
  shows "step_sieuler G dt s =
      (Inr (), s\<lparr>bodies := map (sieuler_formula G dt s) [0..<length (bodies s)],
                  t := t s + dt\<rparr>)"
proof -
  have len: "nat (n s) = length (bodies s)"
    using assms by (simp add: lock_step_def)
  have "sieuler_loop G dt s [0..<nat (n s)] (replicate (nat (n s)) None) =
        Inr (map (\<lambda>i. Some (sieuler_formula G dt s i)) [0..<length (bodies s)])"
    using assms by (simp add: sieuler_loop_fold len fill_all)
  then show ?thesis
    by (simp add: step_sieuler_def comp_def)
qed

section \<open>Coincident bodies\<close>

lemma nan_or_zero_diff: "nan_or_zero (a - a)"
  by (cases a) (simp_all add: nan_or_zero_def minus_float64_def)

lemma nan_or_zero_mult: "nan_or_zero a \<Longrightarrow> nan_or_zero (c * a)"
  by (cases c) (auto simp: nan_or_zero_def signed_inf_def)

lemma nan_or_zero_add: "nan_or_zero a \<Longrightarrow> nan_or_zero b \<Longrightarrow> nan_or_zero (a + b)"
  by (auto simp: nan_or_zero_def)

lemma nan_or_zero_sqrt: "nan_or_zero a \<Longrightarrow> nan_or_zero (fsqrt a)"
  by (auto simp: nan_or_zero_def)

lemma nan_or_zero_power: "nan_or_zero a \<Longrightarrow> nan_or_zero (a ^ Suc k)"
  by (induction k) (simp_all add: nan_or_zero_mult)

lemma nan_or_zero_div: "nan_or_zero a \<Longrightarrow> nan_or_zero b \<Longrightarrow> a / b = NaN"
  by (auto simp: nan_or_zero_def signed_inf_def)

lemma pull_coincident:
  assumes "fst (bodies s ! j) = p"
  shows "pull G s p j = nan3"
proof (cases p)
  case (Vec3 x y z)
  have d: "nan_or_zero (x - x)" "nan_or_zero (y - y)" "nan_or_zero (z - z)"
    by (rule nan_or_zero_diff)+
  have "nan_or_zero ((x - x) * (x - x) + (y - y) * (y - y) + (z - z) * (z - z))"
    by (intro nan_or_zero_add nan_or_zero_mult d)
  then have "nan_or_zero (fsqrt ((x - x) * (x - x) + (y - y) * (y - y) + (z - z) * (z - z)) ^ 3)"
    unfolding numeral_3_eq_3 by (intro nan_or_zero_power nan_or_zero_sqrt)
  moreover have "nan_or_zero (G * masses s ! j * (x - x))" "nan_or_zero (G * masses s ! j * (y - y))"
    "nan_or_zero (G * masses s ! j * (z - z))"
    by (intro nan_or_zero_mult d)+
  ultimately show ?thesis
    using assms Vec3 by (simp add: pull_def nan3_def nan_or_zero_div)
qed

lemma float64_add_nan: "a + NaN = NaN" "NaN + a = NaN"
  by (cases a; simp)+

lemma nan3_add: "v + nan3 = nan3" "nan3 + v = nan3"
  by (cases v; simp add: nan3_def float64_add_nan)+

lemma sum_list_nan3: "nan3 \<in> set vs \<Longrightarrow> sum_list vs = nan3"
  by (induction vs) (auto simp: nan3_add)

lemma smul_nan3: "smul c nan3 = nan3"
  by (cases c) (simp_all add: nan3_def)

lemma vec_single_nan3: "vec_single nan3 = nan3"
  by (simp add: nan3_def)

lemma accel_sum_coincident:
  assumes "j < length (bodies s)" "j \<noteq> i" "fst (bodies s ! j) = fst (bodies s ! i)"
  shows "accel_sum G s i = nan3"
proof -
  have "j \<in> set (filter (\<lambda>j. j \<noteq> i) [0..<length (bodies s)])"
    using assms by simp
  then have "pull G s (fst (bodies s ! i)) j
      \<in> set (map (pull G s (fst (bodies s ! i))) (filter (\<lambda>j. j \<noteq> i) [0..<length (bodies s)]))"
    by (simp only: set_map) (rule imageI)
  then show ?thesis
    unfolding accel_sum_def using assms(3) by (intro sum_list_nan3) (simp add: pull_coincident)
qed

lemma coincident_fields:
  "lock_step coincident"
  "length (bodies coincident) = 2"
  "bodies coincident ! 0 = body_a"
  "bodies coincident ! Suc 0 = body_a"
  "t coincident = Fin 0"
  by (simp_all add: coincident_def init_def lock_step_def)

section \<open>Sums in the diagnostics\<close>

lemma float64_neg_add: "- ((a::float64) + b) = - a + - b"
  by (cases a; cases b) simp_all

lemma float64_neg_zero: "- (0::float64) = 0"
  by (simp add: zero_float64_def)

lemma float64_sum_list_neg: "sum_list (map (\<lambda>x. - f x) xs) = - (sum_list (map f xs) :: float64)"
  by (induction xs) (simp_all add: float64_neg_zero float64_neg_add)

lemma float64_diff_square: "((a::float64) - b) * (a - b) = (b - a) * (b - a)"
  by (cases a; cases b) (simp_all add: minus_float64_def algebra_simps signed_inf_def)

lemma norm3_diff_swap: "norm3 (a - b) = norm3 (b - a)"
  by (cases a; cases b) (simp add: float64_diff_square)

lemma energy_inner_sum:
  assumes "i < length (masses s)" "i < length (bodies s)"
    and "\<forall>j \<in> set js. j < length (bodies s) \<and> j < length (masses s)"
  shows "energy_inner G s i js e = Inr (e + sum_list (map (\<lambda>j. - pair_potential G s i j) js))"
  using assms(3)
proof (induction js arbitrary: e)
  case Nil
  then show ?case by (simp add: zero_float64_def [symmetric])
next
  case (Cons j js)
  then show ?case
    using assms(1,2)
    by (simp add: py_get_nat pair_potential_def norm3_diff_swap [of "fst (bodies s ! j)"]
        minus_float64_def add.assoc)
qed

lemma energy_outer_sum:
  assumes "lock_step s" and "amt = length (bodies s)" and "\<forall>i \<in> set js. i < length (bodies s)"
  shows "energy_outer G s amt js e =
         Inr (e + sum_list (map (\<lambda>i. masses s ! i * norm3 (snd (bodies s ! i)) ^ 2 / Fin 2
                                     + sum_list (map (\<lambda>j. - pair_potential G s i j) [Suc i..<amt])) js))"
  using assms(3)
proof (induction js arbitrary: e)
  case Nil
  then show ?case by simp
next
  case (Cons i js)
  then show ?case
    using assms(1,2)
    by (simp add: py_get_nat lock_step_def energy_inner_sum add.assoc)
qed







section \<open>Pairwise forces in real arithmetic\<close>

lemma is_fin_rval: "is_fin a \<Longrightarrow> a = Fin (rval a)"
  by (cases a) simp_all

lemma fin3_rvec: "fin3 v \<Longrightarrow> v = rvec (cx v) (cy v) (cz v)"
  by (cases v) (auto simp: rvec_def dest: is_fin_rval)

lemma rvec_inject: "rvec a b c = rvec x y z \<longleftrightarrow> a = x \<and> b = y \<and> c = z"
  by (simp add: rvec_def)

lemma sum_list_rvec:
  "sum_list (map (\<lambda>j. rvec (a j) (b j) (c j)) js) =
   rvec (sum_list (map a js)) (sum_list (map b js)) (sum_list (map c js))"
  by (induction js) (simp_all add: rvec_def zero_vec3_def)

lemma smul_rvec: "smul (Fin k) (rvec a b c) = rvec (k * a) (k * b) (k * c)"
  by (simp add: rvec_def)

lemma dist3_commute: "dist3 p q = dist3 q p"
  by (simp add: dist3_def power2_commute)

lemma dist3_zero: "fin3 p \<Longrightarrow> fin3 q \<Longrightarrow> dist3 p q = 0 \<longleftrightarrow> p = q"
proof -
  assume "fin3 p" "fin3 q"
  then have p: "p = rvec (cx p) (cy p) (cz p)" and q: "q = rvec (cx q) (cy q) (cz q)"
    by (simp_all add: fin3_rvec [symmetric])
  have "dist3 p q = 0 \<longleftrightarrow> cx q = cx p \<and> cy q = cy p \<and> cz q = cz p"
    by (simp add: dist3_def sum_power2_eq_zero_iff add_nonneg_eq_0_iff)
  also have "\<dots> \<longleftrightarrow> p = q"
    by (subst p, subst q) (auto simp: rvec_inject)
  finally show ?thesis .
qed

lemma pull_rvec:
  assumes "G = Fin g" and "masses s ! j = Fin m" and "fin3 (fst (bodies s ! j))" and "fin3 p"
    and "fst (bodies s ! j) \<noteq> p"
  shows "pull G s p j =
     rvec (g * m * (cx (fst (bodies s ! j)) - cx p) / dist3 p (fst (bodies s ! j)) ^ 3)
          (g * m * (cy (fst (bodies s ! j)) - cy p) / dist3 p (fst (bodies s ! j)) ^ 3)
          (g * m * (cz (fst (bodies s ! j)) - cz p) / dist3 p (fst (bodies s ! j)) ^ 3)"
proof -
  let ?q = "fst (bodies s ! j)"
  have nz: "dist3 p ?q \<noteq> 0"
    using assms(3-5) by (auto simp: dist3_zero)
  obtain a b c where q: "?q = Vec3 (Fin a) (Fin b) (Fin c)"
    using fin3_rvec [OF assms(3)] by (simp add: rvec_def)
  obtain x y z where p: "p = Vec3 (Fin x) (Fin y) (Fin z)"
    using fin3_rvec [OF assms(4)] by (simp add: rvec_def)
  have nn: "\<not> (a - x) * (a - x) + (b - y) * (b - y) + (c - z) * (c - z) < 0"
    by (simp add: not_less)
  have d: "dist3 p ?q = sqrt ((a - x) * (a - x) + (b - y) * (b - y) + (c - z) * (c - z))"
    by (simp add: dist3_def p q power2_eq_square)
  show ?thesis
    using nz unfolding d
    by (simp add: pull_def p q assms(1,2) minus_float64_def rvec_def nn fin_power)
qed

lemma antisymmetric_sum:
  fixes h :: "nat \<Rightarrow> nat \<Rightarrow> real"
  assumes "\<And>i j. h i j = - h j i"
  shows "(\<Sum>i<N. \<Sum>j<N. h i j) = 0"
proof -
  have "(\<Sum>i<N. \<Sum>j<N. h i j) = (\<Sum>j<N. \<Sum>i<N. h i j)"
    by (rule sum.swap)
  also have "\<dots> = (\<Sum>j<N. \<Sum>i<N. - h j i)"
    by (intro sum.cong refl assms)
  also have "\<dots> = - (\<Sum>j<N. \<Sum>i<N. h j i)"
    by (simp add: sum_negf)
  finally show ?thesis by simp
qed

lemma pairwise_forces_cancel:
  fixes mu c :: "nat \<Rightarrow> real" and d :: "nat \<Rightarrow> nat \<Rightarrow> real"
  assumes "\<And>i j. d i j = d j i"
  shows "sum_list (map (\<lambda>i. mu i * sum_list (map (\<lambda>j. g * mu j * (c j - c i) / d i j ^ 3)
                                               (filter (\<lambda>j. j \<noteq> i) [0..<N]))) [0..<N]) = 0"
proof -
  define h where "h i j = (if j \<noteq> i then mu i * (g * mu j * (c j - c i) / d i j ^ 3) else 0)" for i j
  have swap: "mu i * (g * mu j * (c j - c i) / D) = - (mu j * (g * mu i * (c i - c j) / D))"
    for i j D
    by (simp add: algebra_simps diff_divide_distrib)
  have anti: "h i j = - h j i" for i j
    using swap [of i j "d j i ^ 3"] by (simp add: h_def assms [of i j])
  have "sum_list (map (\<lambda>i. mu i * sum_list (map (\<lambda>j. g * mu j * (c j - c i) / d i j ^ 3)
                                               (filter (\<lambda>j. j \<noteq> i) [0..<N]))) [0..<N])
      = (\<Sum>i<N. \<Sum>j<N. h i j)"
    by (simp add: sum_list_map_filter' interv_sum_list_conv_sum_set_nat h_def sum_distrib_left
        atLeast0LessThan if_distrib [of "\<lambda>x. _ * x"] cong: if_cong)
  also have "\<dots> = 0"
    using anti by (rule antisymmetric_sum)
  finally show ?thesis .
qed

lemma accel_sum_rvec:
  assumes "lock_step s" and "finite_state G s" and "distinct (map fst (bodies s))"
    and "i < length (bodies s)"
  shows "accel_sum G s i =
     rvec (sum_list (map (\<lambda>j. rval G * rval (masses s ! j)
                                * (cx (fst (bodies s ! j)) - cx (fst (bodies s ! i)))
                                / dist3 (fst (bodies s ! i)) (fst (bodies s ! j)) ^ 3)
                         (filter (\<lambda>j. j \<noteq> i) [0..<length (bodies s)])))
          (sum_list (map (\<lambda>j. rval G * rval (masses s ! j)
                                * (cy (fst (bodies s ! j)) - cy (fst (bodies s ! i)))
                                / dist3 (fst (bodies s ! i)) (fst (bodies s ! j)) ^ 3)
                         (filter (\<lambda>j. j \<noteq> i) [0..<length (bodies s)])))
          (sum_list (map (\<lambda>j. rval G * rval (masses s ! j)
                                * (cz (fst (bodies s ! j)) - cz (fst (bodies s ! i)))
                                / dist3 (fst (bodies s ! i)) (fst (bodies s ! j)) ^ 3)
                         (filter (\<lambda>j. j \<noteq> i) [0..<length (bodies s)])))"
proof -
  have G: "G = Fin (rval G)"
    using assms(2) by (simp add: finite_state_def is_fin_rval)
  have fin: "fin3 (fst (bodies s ! k))" if "k < length (bodies s)" for k
    using assms(2) that by (simp add: finite_state_def list_all_length)
  have one: "pull G s (fst (bodies s ! i)) j =
      rvec (rval G * rval (masses s ! j) * (cx (fst (bodies s ! j)) - cx (fst (bodies s ! i)))
              / dist3 (fst (bodies s ! i)) (fst (bodies s ! j)) ^ 3)
           (rval G * rval (masses s ! j) * (cy (fst (bodies s ! j)) - cy (fst (bodies s ! i)))
              / dist3 (fst (bodies s ! i)) (fst (bodies s ! j)) ^ 3)
           (rval G * rval (masses s ! j) * (cz (fst (bodies s ! j)) - cz (fst (bodies s ! i)))
              / dist3 (fst (bodies s ! i)) (fst (bodies s ! j)) ^ 3)"
    if "j \<in> set (filter (\<lambda>j. j \<noteq> i) [0..<length (bodies s)])" for j
  proof -
    from that have j: "j < length (bodies s)" "j \<noteq> i"
      by simp_all
    have m: "masses s ! j = Fin (rval (masses s ! j))"
      using assms(1,2) j by (simp add: finite_state_def lock_step_def list_all_length is_fin_rval)
    have "map fst (bodies s) ! j \<noteq> map fst (bodies s) ! i"
      using nth_eq_iff_index_eq [OF assms(3), of j i] assms(4) j by simp
    then have ne: "fst (bodies s ! j) \<noteq> fst (bodies s ! i)"
      using assms(4) j by simp
    show ?thesis
      by (rule pull_rvec [OF G m fin [OF j(1)] fin [OF assms(4)] ne])
  qed
  show ?thesis
    unfolding accel_sum_def
    by (subst map_cong [OF refl one]) (simp_all add: sum_list_rvec)
qed

section \<open>Mutators: failed calls and the lock-step invariant\<close>




text \<open>
  Claim C9, as amended. The invariant \<open>len(masses) == len(bodies) == n\<close> holds after
  construction from two lists of the same length (the default: two empty lists), and
  every successful \<open>add_body\<close>, \<open>set_body\<close> and \<open>remove_body\<close> preserves it. The
  pairing of masses with bodies by index is kept: \<open>add_body\<close> appends one pair,
  \<open>set_body\<close> replaces the pair at the index, \<open>remove_body\<close> deletes the pair at the
  index.
\<close>

theorem lock_step_maintained:
  "(length ms = length bs \<longrightarrow> lock_step (init ms bs))
   \<and> (lock_step s \<longrightarrow>
        fst (add_body mass pos vel s) = Inr ()
        \<and> lock_step (snd (add_body mass pos vel s))
        \<and> zip (masses (snd (add_body mass pos vel s))) (bodies (snd (add_body mass pos vel s)))
            = zip (masses s) (bodies s) @ [(mass, (pos, vel))])
   \<and> (lock_step s \<and> set_body index mass pos vel s = (Inr (), s') \<longrightarrow>
        lock_step s'
        \<and> (\<exists>k. py_index (length (bodies s)) index = Some k
              \<and> zip (masses s') (bodies s') = (zip (masses s) (bodies s))[k := (mass, (pos, vel))]))
   \<and> (lock_step s \<and> remove_body index s = (Inr (), s'') \<longrightarrow>
        lock_step s''
        \<and> (\<exists>k. py_index (length (bodies s)) index = Some k
              \<and> zip (masses s'') (bodies s'') = remove_at k (zip (masses s) (bodies s))))"
proof (intro conjI impI)
  assume "length ms = length bs"
  then show "lock_step (init ms bs)"
    by (simp add: lock_step_def init_def)
next
  assume "lock_step s"
  then show "lock_step (snd (add_body mass pos vel s))"
    by (simp add: lock_step_def add_body_def)
next
  assume "lock_step s"
  then show "zip (masses (snd (add_body mass pos vel s))) (bodies (snd (add_body mass pos vel s)))
            = zip (masses s) (bodies s) @ [(mass, (pos, vel))]"
    by (simp add: lock_step_def add_body_def)
next
  show "fst (add_body mass pos vel s) = Inr ()"
    by (simp add: add_body_def)
next
  assume a: "lock_step s \<and> set_body index mass pos vel s = (Inr (), s')"
  then obtain k where k: "py_index (length (bodies s)) index = Some k"
    and s': "s' = s\<lparr>masses := (masses s)[k := mass], bodies := (bodies s)[k := (pos, vel)]\<rparr>"
    by (auto simp: set_body_def py_setitem_def lock_step_def split: option.splits)
  from a s' show "lock_step s'"
    by (simp add: lock_step_def)
  from k s' show "\<exists>k. py_index (length (bodies s)) index = Some k
      \<and> zip (masses s') (bodies s') = (zip (masses s) (bodies s))[k := (mass, (pos, vel))]"
    by (simp add: update_zip)
next
  assume a: "lock_step s \<and> remove_body index s = (Inr (), s'')"
  then obtain k where k: "py_index (length (bodies s)) index = Some k"
    and s'': "s'' = s\<lparr>masses := remove_at k (masses s), bodies := remove_at k (bodies s),
        n := n s - 1\<rparr>"
    by (auto simp: remove_body_def py_pop_def lock_step_def split: option.splits)
  from k have "k < length (bodies s)"
    by (rule py_index_bound)
  with a s'' show "lock_step s''"
    by (auto simp: lock_step_def remove_at_def)
  from a k s'' show "\<exists>k. py_index (length (bodies s)) index = Some k
      \<and> zip (masses s'') (bodies s'') = remove_at k (zip (masses s) (bodies s))"
    by (simp add: zip_remove_at lock_step_def)
qed

text \<open>
  Witness for C9: construction from one mass and one body, then each mutator on that
  simulation.
\<close>

theorem lock_step_maintained_witness:
  "lock_step (init [Fin 1] [body_a])
   \<and> lock_step (snd (add_body (Fin 2) 0 0 (init [Fin 1] [body_a])))
   \<and> zip (masses (snd (add_body (Fin 2) 0 0 (init [Fin 1] [body_a]))))
         (bodies (snd (add_body (Fin 2) 0 0 (init [Fin 1] [body_a]))))
       = [(Fin 1, body_a), (Fin 2, (0, 0))]
   \<and> set_body 0 (Fin 2) 0 0 (init [Fin 1] [body_a]) = (Inr (), replaced)
   \<and> lock_step replaced
   \<and> remove_body 0 (init [Fin 1] [body_a]) = (Inr (), emptied)
   \<and> lock_step emptied"
proof -
  let ?s = "init [Fin 1] [body_a]"
  have len: "length [Fin 1 :: float64] = length [body_a]"
    by simp
  have ls: "lock_step ?s"
    by (simp add: lock_step_def init_def)
  have set: "set_body 0 (Fin 2) 0 0 ?s = (Inr (), replaced)"
    by (simp add: set_body_def py_setitem_def py_index_def init_def replaced_def)
  have rem: "remove_body 0 ?s = (Inr (), emptied)"
    by (simp add: remove_body_def py_pop_def py_index_def init_def emptied_def remove_at_def)
  show ?thesis
    using lock_step_maintained [of "[Fin 1]" "[body_a]" ?s "Fin 2" 0 0 0 replaced emptied]
      len ls set rem
    by (simp add: add_body_def init_def)
qed

text \<open>
  Counterexample to C9 as stated: the constructor stores the lists it is given and
  sets \<open>n = len(masses)\<close>, so \<open>Simulation([1], [])\<close> has one mass, no body and \<open>n = 1\<close>.
\<close>

theorem init_mismatched_lists:
  "\<not> lock_step (init [Fin 1] [])"
  by (simp add: lock_step_def init_def)

section \<open>The integrators\<close>

text \<open>
  Claim C5. On every state in lock step and for every \<open>dt\<close>, \<open>step_euler(dt)\<close> returns
  normally, stores for each body \<open>i\<close> the state
  \<open>state\<^sub>i + dt * (velocity\<^sub>i, acceleration\<^sub>i)\<close> and adds \<open>dt\<close> to the time. The
  derivative of every body is the one \<open>ode\<close> gives on the prior state, so no body's
  update reaches another body's derivative. The new states are committed together
  after the loop: on any state, a step that raises leaves the state as it was.
\<close>

theorem step_euler_snapshot:
  "(lock_step s \<longrightarrow>
      step_euler G dt s =
        (Inr (), s\<lparr>bodies := map (euler_formula G dt s) [0..<length (bodies s)], t := t s + dt\<rparr>)
      \<and> (\<forall>i<length (bodies s). ode G (int i) None s = Inr (snd (bodies s ! i), accel_sum G s i)))
   \<and> (fst (step_euler G dt s) = Inl e \<longrightarrow> snd (step_euler G dt s) = s)"
proof (intro conjI impI)
  assume ls: "lock_step s"
  then have len: "nat (n s) = length (bodies s)"
    by (simp add: lock_step_def)
  have "euler_loop G dt s [0..<nat (n s)] (replicate (nat (n s)) None) =
        Inr (map (\<lambda>i. Some (euler_formula G dt s i)) [0..<length (bodies s)])"
    using ls by (simp add: euler_loop_fold len fill_all)
  then show "step_euler G dt s =
      (Inr (), s\<lparr>bodies := map (euler_formula G dt s) [0..<length (bodies s)], t := t s + dt\<rparr>)"
    by (simp add: step_euler_def comp_def)
  from ls show "\<forall>i<length (bodies s). ode G (int i) None s = Inr (snd (bodies s ! i), accel_sum G s i)"
    by (simp add: ode_accel_sum)
next
  assume "fst (step_euler G dt s) = Inl e"
  then show "snd (step_euler G dt s) = s"
    by (simp add: step_euler_def split: sum.splits)
qed

text \<open>
  Witness for C5: two bodies of mass 1 at distance 1, \<open>G = 1\<close>, \<open>dt = 1/2\<close>; and a
  state whose cached count exceeds the number of bodies, where the step raises.
\<close>

theorem step_euler_snapshot_witness:
  "lock_step two_body
   \<and> step_euler (Fin 1) (Fin (1/2)) two_body =
       (Inr (), two_body\<lparr>bodies :=
          [(Vec3 (Fin 0) (Fin 0) (Fin 0), Vec3 (Fin (1/2)) (Fin 0) (Fin 0)),
           (Vec3 (Fin 1) (Fin (1/2)) (Fin 0), Vec3 (Fin (-1/2)) (Fin 1) (Fin 0))],
          t := Fin (1/2)\<rparr>)
   \<and> fst (step_euler (Fin 1) (Fin (1/2)) (init [Fin 1] [])) = Inl IndexError
   \<and> snd (step_euler (Fin 1) (Fin (1/2)) (init [Fin 1] [])) = init [Fin 1] []"
proof -
  have r: "fst (step_euler (Fin 1) (Fin (1/2)) (init [Fin 1] [])) = Inl IndexError"
    by (simp add: step_euler_def init_def py_get_def py_index_def)
  show ?thesis
    using step_euler_snapshot [of two_body "Fin 1" "Fin (1/2)"]
      step_euler_snapshot [of "init [Fin 1] []" "Fin 1" "Fin (1/2)" IndexError]
      two_body_lock_step r
    by (simp add: two_body_fields upt_2 euler_formula_def two_body_accel)
qed

text \<open>
  Claim C1. On every state in lock step and for every \<open>dt\<close>, \<open>step_sieuler(dt)\<close>
  returns normally, changes only the bodies and the time, stores as many bodies as
  before and adds \<open>dt\<close> to the time. For
  each body \<open>i\<close> the derivative is the one \<open>ode\<close> gives on the prior state, and the
  stored state is the single-precision cast, component by component, of the provisional
  \<open>pos' = pos + dt * vel\<close>, \<open>vel' = vel + dt * accel\<close> with \<open>dt\<^sup>2 * accel\<close> added to
  the position: every finite stored component is a single-precision value nearest to
  the exact one (with the even significand on a tie), an exact component at or beyond
  the overflow threshold is stored as an infinity, and NaN and the infinities are kept.
  Casting the stored state once more does not change it.
\<close>

theorem step_sieuler_formula:
  assumes "lock_step s"
  shows "fst (step_sieuler G dt s) = Inr ()
       \<and> snd (step_sieuler G dt s) =
           s\<lparr>bodies := bodies (snd (step_sieuler G dt s)), t := t s + dt\<rparr>
       \<and> length (bodies (snd (step_sieuler G dt s))) = length (bodies s)
       \<and> (\<forall>i<length (bodies s).
            ode G (int i) None s = Inr (snd (bodies s ! i), accel_sum G s i)
            \<and> body_cast (sieuler_exact G dt s i) (bodies (snd (step_sieuler G dt s)) ! i)
            \<and> astype_single (bodies (snd (step_sieuler G dt s)) ! i)
                = bodies (snd (step_sieuler G dt s)) ! i)"
proof -
  have len: "nat (n s) = length (bodies s)"
    using assms by (simp add: lock_step_def)
  have "sieuler_loop G dt s [0..<nat (n s)] (replicate (nat (n s)) None) =
        Inr (map (\<lambda>i. Some (sieuler_formula G dt s i)) [0..<length (bodies s)])"
    using assms by (simp add: sieuler_loop_fold len fill_all)
  then have step: "step_sieuler G dt s =
      (Inr (), s\<lparr>bodies := map (sieuler_formula G dt s) [0..<length (bodies s)],
                  t := t s + dt\<rparr>)"
    by (simp add: step_sieuler_def comp_def)
  have "ode G (int i) None s = Inr (snd (bodies s ! i), accel_sum G s i)"
    if "i < length (bodies s)" for i
    using assms that by (rule ode_accel_sum)
  moreover have "body_cast (sieuler_exact G dt s i) (sieuler_formula G dt s i)" for i
    unfolding sieuler_formula_def by (rule astype_single_cast)
  moreover have "astype_single (sieuler_formula G dt s i) = sieuler_formula G dt s i" for i
    unfolding sieuler_formula_def by (rule astype_single_idem)
  ultimately show ?thesis
    by (simp add: step)
qed

text \<open>
  Witness for C1: two bodies of mass 1 at distance 1, \<open>G = 1\<close>, \<open>dt = 1/10\<close>. The exact
  new position of body 0 is \<open>(1/100, 0, 0)\<close> and its exact new velocity \<open>(1/10, 0, 0)\<close>;
  neither \<open>1/100\<close> nor \<open>1/10\<close> is a single-precision value, and the stored components
  are \<open>5368709 / 2^29\<close> and \<open>13421773 / 2^27\<close>.
\<close>

theorem step_sieuler_formula_witness:
  "lock_step two_body
   \<and> step_sieuler (Fin 1) (Fin (1/10)) two_body =
       (Inr (), two_body\<lparr>bodies :=
          [(Vec3 (Fin (5368709 / 536870912)) (Fin 0) (Fin 0),
            Vec3 (Fin (13421773 / 134217728)) (Fin 0) (Fin 0)),
           (Vec3 (Fin (4152361 / 4194304)) (Fin (13421773 / 134217728)) (Fin 0),
            Vec3 (Fin (- (13421773 / 134217728))) (Fin 1) (Fin 0))],
          t := Fin (1/10)\<rparr>)
   \<and> sieuler_exact (Fin 1) (Fin (1/10)) two_body 0 =
       (Vec3 (Fin (1/100)) (Fin 0) (Fin 0), Vec3 (Fin (1/10)) (Fin 0) (Fin 0))
   \<and> body_cast (Vec3 (Fin (1/100)) (Fin 0) (Fin 0), Vec3 (Fin (1/10)) (Fin 0) (Fin 0))
       (Vec3 (Fin (5368709 / 536870912)) (Fin 0) (Fin 0),
        Vec3 (Fin (13421773 / 134217728)) (Fin 0) (Fin 0))"
proof -
  have ex: "sieuler_exact (Fin 1) (Fin (1/10)) two_body 0 =
      (Vec3 (Fin (1/100)) (Fin 0) (Fin 0), Vec3 (Fin (1/10)) (Fin 0) (Fin 0))"
    "sieuler_exact (Fin 1) (Fin (1/10)) two_body (Suc 0) =
      (Vec3 (Fin (99/100)) (Fin (1/10)) (Fin 0), Vec3 (Fin (- (1/10))) (Fin 1) (Fin 0))"
    by (simp_all add: sieuler_exact_def two_body_fields two_body_accel fin_power power2_eq_square)
  have step: "step_sieuler (Fin 1) (Fin (1/10)) two_body =
       (Inr (), two_body\<lparr>bodies :=
          [(Vec3 (Fin (5368709 / 536870912)) (Fin 0) (Fin 0),
            Vec3 (Fin (13421773 / 134217728)) (Fin 0) (Fin 0)),
           (Vec3 (Fin (4152361 / 4194304)) (Fin (13421773 / 134217728)) (Fin 0),
            Vec3 (Fin (- (13421773 / 134217728))) (Fin 1) (Fin 0))],
          t := Fin (1/10)\<rparr>)"
    by (simp add: step_sieuler_closed two_body_lock_step two_body_fields upt_2 sieuler_formula_def
        ex astype_single_def astype_double_def round_single_values)
  have "body_cast (sieuler_exact (Fin 1) (Fin (1/10)) two_body 0)
      (bodies (snd (step_sieuler (Fin 1) (Fin (1/10)) two_body)) ! 0)"
    using step_sieuler_formula [OF two_body_lock_step, of "Fin 1" "Fin (1/10)"]
    by (simp add: two_body_fields)
  then have "body_cast (Vec3 (Fin (1/100)) (Fin 0) (Fin 0), Vec3 (Fin (1/10)) (Fin 0) (Fin 0))
       (Vec3 (Fin (5368709 / 536870912)) (Fin 0) (Fin 0),
        Vec3 (Fin (13421773 / 134217728)) (Fin 0) (Fin 0))"
    by (simp add: ex step)
  with two_body_lock_step step ex(1) show ?thesis
    by (simp only: simp_thms)
qed

text \<open>
  Claim C10. For every state and every \<open>dt\<close>, whether the step returns or raises,
  \<open>step_euler\<close> and \<open>step_sieuler\<close> leave the masses, the cached count \<open>n\<close> and the
  running flag as they were.
\<close>

theorem steps_frame:
  "masses (snd (step_euler G dt s)) = masses s
   \<and> n (snd (step_euler G dt s)) = n s
   \<and> running (snd (step_euler G dt s)) = running s
   \<and> masses (snd (step_sieuler G dt s)) = masses s
   \<and> n (snd (step_sieuler G dt s)) = n s
   \<and> running (snd (step_sieuler G dt s)) = running s"
proof -
  have e: "snd (step_euler G dt s) = s
      \<or> (\<exists>new. snd (step_euler G dt s) = s\<lparr>bodies := new, t := t s + dt\<rparr>)"
    by (cases "euler_loop G dt s [0..<nat (n s)] (replicate (nat (n s)) None)")
       (auto simp: step_euler_def)
  have si: "snd (step_sieuler G dt s) = s
      \<or> (\<exists>new. snd (step_sieuler G dt s) = s\<lparr>bodies := new, t := t s + dt\<rparr>)"
    by (cases "sieuler_loop G dt s [0..<nat (n s)] (replicate (nat (n s)) None)")
       (auto simp: step_sieuler_def)
  from e have "masses (snd (step_euler G dt s)) = masses s \<and> n (snd (step_euler G dt s)) = n s
      \<and> running (snd (step_euler G dt s)) = running s"
    by auto
  moreover from si have "masses (snd (step_sieuler G dt s)) = masses s
      \<and> n (snd (step_sieuler G dt s)) = n s
      \<and> running (snd (step_sieuler G dt s)) = running s"
    by auto
  ultimately show ?thesis
    by simp
qed

section \<open>The acceleration evaluator\<close>

text \<open>
  Claim C2, evaluated where the code departs from it. Body 0 is stored at the origin
  and body 1 at \<open>(1, 0, 0)\<close>, both of mass 1, \<open>G = 1\<close>. For body 0 with the candidate
  position \<open>(3, 0, 0)\<close> the claimed acceleration is \<open>(-1/4, 0, 0)\<close>; \<open>dv_dt\<close> returns
  \<open>(1, 0, 0)\<close>, the acceleration at the stored position, which is also what it returns
  when no candidate is passed.
\<close>

theorem dv_dt_candidate_ignored:
  "dv_dt (Fin 1) 0 (Some candidate) two_body = Inr (Vec3 (Fin 1) (Fin 0) (Fin 0))
   \<and> dv_dt (Fin 1) 0 None two_body = Inr (Vec3 (Fin 1) (Fin 0) (Fin 0))
   \<and> accel_spec (Fin 1) two_body 0 (fst candidate) = Vec3 (Fin (- 1/4)) (Fin 0) (Fin 0)"
proof -
  have "dv_dt (Fin 1) 0 (Some candidate) two_body = Inr (Vec3 (Fin 1) (Fin 0) (Fin 0))"
    by (simp add: dv_dt_def default_body_def two_body_def init_def upt_2 py_get_def py_index_def
        minus_float64_def fin_power zero_vec3_def)
  moreover have "dv_dt (Fin 1) 0 None two_body = Inr (Vec3 (Fin 1) (Fin 0) (Fin 0))"
    by (simp add: dv_dt_def default_body_def two_body_def init_def upt_2 py_get_def py_index_def
        minus_float64_def fin_power zero_vec3_def)
  moreover have "accel_spec (Fin 1) two_body 0 (fst candidate) = Vec3 (Fin (- 1/4)) (Fin 0) (Fin 0)"
    by (simp add: accel_spec_def candidate_def two_body_def init_def upt_2 minus_float64_def
        fin_power zero_vec3_def)
  ultimately show ?thesis by simp
qed

text \<open>
  Claim C3, as amended. When another body \<open>j\<close> is at the position of body \<open>i\<close>, the
  evaluator does not fail: the division \<open>0/0\<close> makes the acceleration of body \<open>i\<close> the
  NaN vector. Both steps then return normally and commit: the time advances by \<open>dt\<close>,
  \<open>step_euler\<close> stores NaN as the velocity of body \<open>i\<close> and \<open>step_sieuler\<close> stores NaN
  as its position and its velocity.
\<close>

theorem coincident_bodies_nan:
  assumes "lock_step s" and "i < length (bodies s)" and "j < length (bodies s)" and "j \<noteq> i"
    and "fst (bodies s ! j) = fst (bodies s ! i)"
  shows "dv_dt G (int i) None s = Inr nan3
       \<and> fst (step_euler G dt s) = Inr ()
       \<and> snd (bodies (snd (step_euler G dt s)) ! i) = nan3
       \<and> t (snd (step_euler G dt s)) = t s + dt
       \<and> fst (step_sieuler G dt s) = Inr ()
       \<and> bodies (snd (step_sieuler G dt s)) ! i = (nan3, nan3)
       \<and> t (snd (step_sieuler G dt s)) = t s + dt"
proof -
  have a: "accel_sum G s i = nan3"
    using assms(3-5) by (rule accel_sum_coincident)
  have "dv_dt G (int i) None s = Inr nan3"
    using assms(1,2) a by (simp add: dv_dt_accel_sum)
  moreover have "snd (euler_formula G dt s i) = nan3"
    by (simp add: euler_formula_def a smul_nan3 nan3_add Let_def)
  moreover have "sieuler_formula G dt s i = (nan3, nan3)"
    by (simp add: sieuler_formula_def sieuler_exact_def a smul_nan3 nan3_add Let_def astype_single_def
        astype_double_def vec_single_nan3)
  ultimately show ?thesis
    using assms(1,2) by (simp add: step_euler_closed step_sieuler_closed)
qed

text \<open>Witness for C3: two bodies of mass 1 with the same position and velocity.\<close>

theorem coincident_bodies_nan_witness:
  "lock_step coincident \<and> 0 < length (bodies coincident) \<and> 1 < length (bodies coincident)
   \<and> (1::nat) \<noteq> 0 \<and> fst (bodies coincident ! 1) = fst (bodies coincident ! 0)
   \<and> dv_dt (Fin 1) 0 None coincident = Inr nan3
   \<and> fst (step_euler (Fin 1) (Fin (1/2)) coincident) = Inr ()
   \<and> snd (bodies (snd (step_euler (Fin 1) (Fin (1/2)) coincident)) ! 0) = nan3
   \<and> t (snd (step_euler (Fin 1) (Fin (1/2)) coincident)) = Fin (1/2)
   \<and> fst (step_sieuler (Fin 1) (Fin (1/2)) coincident) = Inr ()
   \<and> bodies (snd (step_sieuler (Fin 1) (Fin (1/2)) coincident)) ! 0 = (nan3, nan3)
   \<and> t (snd (step_sieuler (Fin 1) (Fin (1/2)) coincident)) = Fin (1/2)"
proof -
  have h: "0 < length (bodies coincident)" "1 < length (bodies coincident)" "(1::nat) \<noteq> 0"
    "fst (bodies coincident ! 1) = fst (bodies coincident ! 0)"
    by (simp_all add: coincident_fields)
  show ?thesis
    using coincident_bodies_nan [OF coincident_fields(1) h, of "Fin 1" "Fin (1/2)"]
      coincident_fields(1) h
    by (simp add: coincident_fields)
qed

text \<open>
  Counterexample to C3 as stated: with two bodies at the same position the evaluator
  returns the NaN vector instead of failing, and \<open>step_sieuler\<close> returns normally with
  NaN written into both bodies and the time advanced.
\<close>

theorem coincident_step_commits:
  "fst (bodies coincident ! 1) = fst (bodies coincident ! 0)
   \<and> dv_dt (Fin 1) 0 None coincident = Inr nan3
   \<and> step_sieuler (Fin 1) (Fin (1/2)) coincident =
       (Inr (), coincident\<lparr>bodies := [(nan3, nan3), (nan3, nan3)], t := Fin (1/2)\<rparr>)
   \<and> bodies coincident \<noteq> [(nan3, nan3), (nan3, nan3)]"
proof -
  have a: "accel_sum (Fin 1) coincident 0 = nan3" "accel_sum (Fin 1) coincident (Suc 0) = nan3"
    by (rule accel_sum_coincident [where j = 1], simp_all add: coincident_fields)
       (rule accel_sum_coincident [where j = 0], simp_all add: coincident_fields)
  have "sieuler_formula (Fin 1) (Fin (1/2)) coincident 0 = (nan3, nan3)"
    "sieuler_formula (Fin 1) (Fin (1/2)) coincident (Suc 0) = (nan3, nan3)"
    by (simp_all add: sieuler_formula_def sieuler_exact_def a smul_nan3 nan3_add Let_def astype_single_def
        astype_double_def vec_single_nan3)
  then have "step_sieuler (Fin 1) (Fin (1/2)) coincident =
       (Inr (), coincident\<lparr>bodies := [(nan3, nan3), (nan3, nan3)], t := Fin (1/2)\<rparr>)"
    by (simp add: step_sieuler_closed coincident_fields upt_2)
  moreover have "dv_dt (Fin 1) 0 None coincident = Inr nan3"
    using dv_dt_accel_sum [of coincident 0 "Fin 1" None] a by (simp add: coincident_fields)
  moreover have "bodies coincident \<noteq> [(nan3, nan3), (nan3, nan3)]"
    by (simp add: coincident_def init_def body_a_def nan3_def)
  ultimately show ?thesis
    by (simp add: coincident_fields)
qed

section \<open>Diagnostics\<close>

text \<open>
  Claim C7. On every state in lock step, \<open>energy()\<close> returns the kinetic energy
  \<open>\<Sum> m\<^sub>i |v\<^sub>i|\<^sup>2 / 2\<close> minus the potential energy
  \<open>\<Sum>\<^bsub>i < j\<^esub> G m\<^sub>i m\<^sub>j / |p\<^sub>i - p\<^sub>j|\<close>, each unordered pair counted once, and
  leaves the state as it was.
\<close>

theorem energy_formula:
  assumes "lock_step s"
  shows "energy G s = (Inr (kinetic s - potential G s), s)"
proof -
  have len: "nat (n s) = length (bodies s)"
    using assms by (simp add: lock_step_def)
  have "energy_outer G s (length (bodies s)) [0..<length (bodies s)] (Fin 0) =
        Inr (kinetic s + - potential G s)"
    using assms
    by (simp add: energy_outer_sum sum_list_addf float64_sum_list_neg kinetic_def potential_def
        float64_zero_add)
  then show ?thesis
    by (simp add: energy_def len minus_float64_def)
qed

text \<open>
  Witness for C7: two bodies of mass 1 at distance 1, one at rest and one with speed 1,
  \<open>G = 1\<close>: kinetic energy \<open>1/2\<close>, potential energy \<open>1\<close>.
\<close>

theorem energy_formula_witness:
  "lock_step two_body
   \<and> kinetic two_body = Fin (1/2)
   \<and> potential (Fin 1) two_body = Fin 1
   \<and> energy (Fin 1) two_body = (Inr (Fin (- 1/2)), two_body)"
proof -
  have k: "kinetic two_body = Fin (1/2)"
    by (simp add: kinetic_def two_body_fields upt_2 two_body_def init_def fin_power)
  have p: "potential (Fin 1) two_body = Fin 1"
    by (simp add: potential_def pair_potential_def two_body_fields upt_2 two_body_def init_def
        minus_float64_def)
  show ?thesis
    using energy_formula [OF two_body_lock_step, of "Fin 1"] two_body_lock_step k p
    by (simp add: minus_float64_def)
qed




section \<open>Newton's third law\<close>

text \<open>
  Claim C6. In exact real arithmetic (a finite \<open>G\<close>, finite masses and positions), on
  every state in lock step whose body positions are pairwise distinct, the evaluator
  returns an acceleration for every body and the sum over all bodies of
  \<open>m\<^sub>i\<close> times the acceleration of body \<open>i\<close> is the zero vector.
\<close>

theorem newton_third_law:
  assumes "lock_step s" and "finite_state G s" and "distinct (map fst (bodies s))"
  shows "(\<forall>i<length (bodies s). dv_dt G (int i) None s = Inr (accel_sum G s i))
       \<and> sum_list (map (\<lambda>i. smul (masses s ! i) (accel_sum G s i)) [0..<length (bodies s)]) = 0"
proof
  show "\<forall>i<length (bodies s). dv_dt G (int i) None s = Inr (accel_sum G s i)"
    using assms(1) by (simp add: dv_dt_accel_sum)
next
  let ?N = "length (bodies s)"
  let ?mu = "\<lambda>i. rval (masses s ! i)"
  let ?d = "\<lambda>i j. dist3 (fst (bodies s ! i)) (fst (bodies s ! j))"
  let ?F = "\<lambda>c i. ?mu i * sum_list (map (\<lambda>j. rval G * ?mu j
                * (c (fst (bodies s ! j)) - c (fst (bodies s ! i))) / ?d i j ^ 3)
                (filter (\<lambda>j. j \<noteq> i) [0..<?N]))"
  have sym: "?d i j = ?d j i" for i j
    by (rule dist3_commute)
  have zero: "sum_list (map (?F c) [0..<?N]) = 0" for c
    using pairwise_forces_cancel [of ?d ?mu "rval G" "\<lambda>i. c (fst (bodies s ! i))" ?N, OF sym] .
  have one: "smul (masses s ! i) (accel_sum G s i) = rvec (?F cx i) (?F cy i) (?F cz i)"
    if "i \<in> set [0..<?N]" for i
  proof -
    from that have i: "i < ?N" by simp
    have m: "masses s ! i = Fin (?mu i)"
      using assms(1,2) i by (simp add: finite_state_def lock_step_def list_all_length is_fin_rval)
    show ?thesis
      by (subst m, subst accel_sum_rvec [OF assms i]) (simp add: smul_rvec)
  qed
  have "sum_list (map (\<lambda>i. smul (masses s ! i) (accel_sum G s i)) [0..<?N]) =
        sum_list (map (\<lambda>i. rvec (?F cx i) (?F cy i) (?F cz i)) [0..<?N])"
    by (subst map_cong [OF refl one]) simp_all
  also have "\<dots> = rvec 0 0 0"
    unfolding sum_list_rvec zero ..
  finally show "sum_list (map (\<lambda>i. smul (masses s ! i) (accel_sum G s i)) [0..<?N]) = 0"
    by (simp add: rvec_def zero_vec3_def)
qed

text \<open>Witness for C6: the two bodies of mass 1 at distance 1, \<open>G = 1\<close>.\<close>

theorem newton_third_law_witness:
  "lock_step two_body \<and> finite_state (Fin 1) two_body \<and> distinct (map fst (bodies two_body))
   \<and> dv_dt (Fin 1) 0 None two_body = Inr (Vec3 (Fin 1) (Fin 0) (Fin 0))
   \<and> dv_dt (Fin 1) 1 None two_body = Inr (Vec3 (Fin (- 1)) (Fin 0) (Fin 0))
   \<and> smul (masses two_body ! 0) (Vec3 (Fin 1) (Fin 0) (Fin 0))
       + smul (masses two_body ! 1) (Vec3 (Fin (- 1)) (Fin 0) (Fin 0)) = 0"
proof -
  have f: "finite_state (Fin 1) two_body"
    by (simp add: finite_state_def two_body_def init_def)
  have d: "distinct (map fst (bodies two_body))"
    by (simp add: two_body_def init_def)
  have a: "\<forall>i<length (bodies two_body).
      dv_dt (Fin 1) (int i) None two_body = Inr (accel_sum (Fin 1) two_body i)"
    and z: "sum_list (map (\<lambda>i. smul (masses two_body ! i) (accel_sum (Fin 1) two_body i))
      [0..<length (bodies two_body)]) = 0"
    using newton_third_law [OF two_body_lock_step f d] by blast+
  from a [rule_format, of 0] a [rule_format, of 1]
  have "dv_dt (Fin 1) 0 None two_body = Inr (accel_sum (Fin 1) two_body 0)"
    "dv_dt (Fin 1) 1 None two_body = Inr (accel_sum (Fin 1) two_body 1)"
    by (simp_all add: two_body_fields)
  moreover from z have "smul (masses two_body ! 0) (accel_sum (Fin 1) two_body 0)
      + smul (masses two_body ! 1) (accel_sum (Fin 1) two_body 1) = 0"
    by (simp add: two_body_fields upt_2)
  ultimately show ?thesis
    using two_body_lock_step f d by (simp add: two_body_accel)
qed

end
